theory Spec2Isabelle
  imports Main "HOL-Library.Multiset"
begin

section \<open>JavaScript values\<close>

text \<open>
  A JavaScript string is a sequence of UTF-16 code units; a code unit is modelled as a
  natural number, so that an emoji is the two surrogates it is in the program. The
  function \<open>js\<close> writes an ASCII literal as such a string.

  A JavaScript number is modelled as a mathematical integer or \<open>NaN\<close>. The model follows
  the program on the safe integers, those of magnitude at most \<open>2 ^ 53 - 1\<close>: there
  \<open>parseInt\<close>, \<open>+\<close> and \<open>-\<close> on doubles are exact and \<open>toString\<close> prints plain decimal
  digits. Beyond them the program rounds to the nearest double, and prints an exponent from
  \<open>10 ^ 21\<close>, which the model does not do. A statement about numbers read, added or
  printed therefore carries the hypothesis that they are safe (\<open>safe\<close>, \<open>safe_update\<close>);
  the statements without it are evaluations on small numbers or do not depend on the
  value of a number.
\<close>

type_synonym jschar = nat
type_synonym jsstring = "jschar list"

definition js :: "string \<Rightarrow> jsstring" where
  "js s = map of_char s"

datatype jsnum = Num int | NaN

definition is_space :: "jschar \<Rightarrow> bool" where
  \<comment> \<open>the class \<open>\s\<close>, which is also what \<open>trim\<close> and \<open>parseInt\<close> strip\<close>
  "is_space c =
     (c = 9 \<or> c = 10 \<or> c = 11 \<or> c = 12 \<or> c = 13 \<or> c = 32 \<or> c = 160 \<or> c = 5760
      \<or> (8192 \<le> c \<and> c \<le> 8202) \<or> c = 8232 \<or> c = 8233 \<or> c = 8239 \<or> c = 8287
      \<or> c = 12288 \<or> c = 65279)"

definition is_digit :: "jschar \<Rightarrow> bool" where
  \<comment> \<open>the class \<open>\d\<close>: ASCII digits only\<close>
  "is_digit c = (48 \<le> c \<and> c \<le> 57)"

definition digits_value :: "jsstring \<Rightarrow> nat" where
  "digits_value ds = foldl (\<lambda>a c. 10 * a + (c - 48)) 0 ds"

definition parseInt :: "jsstring \<Rightarrow> jsnum" where
  \<comment> \<open>\<open>parseInt(s, 10)\<close>: leading white space, an optional sign, the longest run of digits;
      the program's result where that integer is safe\<close>
  "parseInt s =
     (let t = dropWhile is_space s;
          neg = (t \<noteq> [] \<and> hd t = 45);
          u = (if t \<noteq> [] \<and> (hd t = 43 \<or> hd t = 45) then tl t else t);
          ds = takeWhile is_digit u
      in if ds = [] then NaN
         else Num (if neg then - int (digits_value ds) else int (digits_value ds)))"

function digits_of :: "nat \<Rightarrow> jsstring" where
  "digits_of n = (if n < 10 then [48 + n] else digits_of (n div 10) @ [48 + n mod 10])"
  by pat_completeness auto
termination
  by (relation "measure id") auto

declare digits_of.simps [simp del]

definition toString :: "jsnum \<Rightarrow> jsstring" where
  \<comment> \<open>\<open>Number.prototype.toString()\<close> on \<open>NaN\<close> and on a safe integer\<close>
  "toString x =
     (case x of
        NaN \<Rightarrow> js ''NaN''
      | Num i \<Rightarrow> if i < 0 then 45 # digits_of (nat (- i)) else digits_of (nat i))"

definition js_minus :: "jsnum \<Rightarrow> jsnum \<Rightarrow> jsnum" where
  \<comment> \<open>\<open>a - b\<close>; the program's result where both numbers and the difference are safe\<close>
  "js_minus a b = (case (a, b) of (Num x, Num y) \<Rightarrow> Num (x - y) | _ \<Rightarrow> NaN)"

definition js_plus :: "jsnum \<Rightarrow> jsnum \<Rightarrow> jsnum" where
  \<comment> \<open>\<open>a + b\<close>; the program's result where both numbers and the sum are safe\<close>
  "js_plus a b = (case (a, b) of (Num x, Num y) \<Rightarrow> Num (x + y) | _ \<Rightarrow> NaN)"

definition js_lt0 :: "jsnum \<Rightarrow> bool" where
  \<comment> \<open>\<open>x < 0\<close>, false on \<open>NaN\<close>\<close>
  "js_lt0 a = (case a of Num x \<Rightarrow> x < 0 | NaN \<Rightarrow> False)"

definition js_gt0 :: "jsnum \<Rightarrow> bool" where
  \<comment> \<open>\<open>x > 0\<close>, false on \<open>NaN\<close>\<close>
  "js_gt0 a = (case a of Num x \<Rightarrow> 0 < x | NaN \<Rightarrow> False)"

subsection \<open>Arrays\<close>

fun findIndex :: "('a \<Rightarrow> bool) \<Rightarrow> 'a list \<Rightarrow> nat option" where
  "findIndex p [] = None"
| "findIndex p (x # xs) =
     (if p x then Some 0 else (case findIndex p xs of None \<Rightarrow> None | Some i \<Rightarrow> Some (Suc i)))"

fun lastIndexOf :: "'a list \<Rightarrow> 'a \<Rightarrow> int" where
  \<comment> \<open>the index of the last element equal to \<open>v\<close>, or \<open>-1\<close>\<close>
  "lastIndexOf [] v = - 1"
| "lastIndexOf (x # xs) v =
     (let r = lastIndexOf xs v in if 0 \<le> r then r + 1 else if x = v then 0 else - 1)"

definition slice :: "'a list \<Rightarrow> nat \<Rightarrow> nat \<Rightarrow> 'a list" where
  \<comment> \<open>\<open>xs.slice(a, b)\<close> for indices that are not negative\<close>
  "slice xs a b = take (b - a) (drop a xs)"

fun join :: "jsstring list \<Rightarrow> jsstring" where
  \<comment> \<open>\<open>xs.join(' ')\<close>\<close>
  "join [] = []"
| "join [x] = x"
| "join (x # y # ys) = x @ 32 # join (y # ys)"

fun insert_by :: "('a \<Rightarrow> 'a \<Rightarrow> jsnum) \<Rightarrow> 'a \<Rightarrow> 'a list \<Rightarrow> 'a list" where
  "insert_by cmp x [] = [x]"
| "insert_by cmp x (y # ys) =
     (if js_gt0 (cmp x y) then y # insert_by cmp x ys else x # y # ys)"

fun sort_by :: "('a \<Rightarrow> 'a \<Rightarrow> jsnum) \<Rightarrow> 'a list \<Rightarrow> 'a list" where
  \<comment> \<open>\<open>xs.sort(cmp)\<close>: a stable sort; an element moves behind another one only where the
      comparator is positive. This is the order of the engine for a consistent comparator;
      where the comparator yields \<open>NaN\<close> the engine's order is its own, and the statements
      about sorted rows speak of the rows as a multiset\<close>
  "sort_by cmp [] = []"
| "sort_by cmp (x # xs) = insert_by cmp x (sort_by cmp xs)"

subsection \<open>Tokens and patterns of the parser\<close>

definition trim :: "jsstring \<Rightarrow> jsstring" where
  "trim s = rev (dropWhile is_space (rev (dropWhile is_space s)))"

function split_ws :: "jsstring \<Rightarrow> jsstring list" where
  \<comment> \<open>\<open>s.split(/\s+/)\<close>\<close>
  "split_ws s =
     (let tok = takeWhile (\<lambda>c. \<not> is_space c) s;
          rest = dropWhile (\<lambda>c. \<not> is_space c) s
      in if rest = [] then [tok] else tok # split_ws (dropWhile is_space rest))"
  by pat_completeness auto
termination
proof (relation "measure length")
  fix s tok rest :: jsstring
  assume r: "rest = dropWhile (\<lambda>c. \<not> is_space c) s" and ne: "rest \<noteq> []"
  from ne obtain c cs where rc: "rest = c # cs" by (cases rest) auto
  with r have "is_space c" by (metis hd_dropWhile list.sel(1) ne)
  then have "length (dropWhile is_space rest) \<le> length cs"
    using rc by (simp add: length_dropWhile_le)
  moreover have "length rest \<le> length s"
    using r by (simp add: length_dropWhile_le)
  ultimately show "(dropWhile is_space rest, s) \<in> measure length"
    using rc by simp
qed simp

declare split_ws.simps [simp del]

fun numberRegex_match :: "jsstring \<Rightarrow> jsstring option" where
  \<comment> \<open>the leftmost match of \<open>/[+-]?\d+/\<close>: at each position the sign is tried first\<close>
  "numberRegex_match [] = None"
| "numberRegex_match (c # cs) =
     (if (c = 43 \<or> c = 45) \<and> cs \<noteq> [] \<and> is_digit (hd cs) then Some (c # takeWhile is_digit cs)
      else if is_digit c then Some (takeWhile is_digit (c # cs))
      else numberRegex_match cs)"

definition numberRegex_test :: "jsstring \<Rightarrow> bool" where
  "numberRegex_test t = (numberRegex_match t \<noteq> None)"

definition dateRegex :: "jsstring \<Rightarrow> bool" where
  \<comment> \<open>\<open>/^\d{1,2}\/\d{1,2}$/\<close>\<close>
  "dateRegex t =
     (let a = takeWhile is_digit t; r = dropWhile is_digit t
      in 1 \<le> length a \<and> length a \<le> 2 \<and> r \<noteq> [] \<and> hd r = 47
         \<and> 1 \<le> length (tl r) \<and> length (tl r) \<le> 2 \<and> list_all is_digit (tl r))"

definition speedPattern :: "jsstring \<Rightarrow> bool" where
  \<comment> \<open>\<open>/^\d+([GMgm]|Mbps|mbps)?$/\<close>\<close>
  "speedPattern t =
     (let a = takeWhile is_digit t; r = dropWhile is_digit t
      in a \<noteq> [] \<and> (r = [] \<or> r = js ''G'' \<or> r = js ''M'' \<or> r = js ''g'' \<or> r = js ''m''
                      \<or> r = js ''Mbps'' \<or> r = js ''mbps''))"

section \<open>The message parser\<close>

record SaleDetails =
  customerName :: jsstring
  installDate :: jsstring
  provider :: jsstring
  speed :: jsstring
  saleDate :: jsstring
  timestamp :: jsstring

record SaleEvent = SaleDetails +
  repName :: jsstring
  todayReported :: int

definition parseSalesMessage :: "jsstring \<Rightarrow> jsstring \<Rightarrow> jsstring \<Rightarrow> SaleEvent option" where
  \<comment> \<open>\<open>now\<close> is what \<open>new Date().toISOString()\<close> returns when the message is parsed;
      \<open>None\<close> is \<open>null\<close>\<close>
  "parseSalesMessage now text senderName =
     (if text = [] then None
      else
        let tokens = split_ws (trim text) in
        if length tokens < 3 then None
        else
          case findIndex numberRegex_test tokens of
            None \<Rightarrow> None
          | Some countIndex \<Rightarrow>
              (case numberRegex_match (tokens ! countIndex) of
                 None \<Rightarrow> None
               | Some countMatch \<Rightarrow>
                   (case parseInt countMatch of
                      NaN \<Rightarrow> None
                    | Num reported \<Rightarrow>
                        (case findIndex dateRegex tokens of
                           None \<Rightarrow> None
                         | Some dateIndex \<Rightarrow>
                             if dateIndex \<le> countIndex then None
                             else
                               let last_token = tokens ! (length tokens - 1);
                                   maybeSpeed = tokens ! (length tokens - 2);
                                   speed_token =
                                     (if \<not> speedPattern last_token \<and> 2 \<le> length tokens
                                         \<and> speedPattern maybeSpeed
                                      then maybeSpeed else last_token);
                                   speedIndex = lastIndexOf tokens speed_token;
                                   provider_text =
                                     (if int dateIndex < speedIndex
                                      then join (slice tokens (dateIndex + 1) (nat speedIndex))
                                      else []);
                                   nameTokens = slice tokens (countIndex + 1) dateIndex
                               in Some \<lparr> customerName = join nameTokens,
                                         installDate = tokens ! dateIndex,
                                         provider = provider_text,
                                         speed = speed_token,
                                         saleDate = takeWhile (\<lambda>c. c \<noteq> 84) now,
                                         timestamp = now,
                                         repName = senderName,
                                         todayReported = reported \<rparr>))))"

text \<open>
  The count token has passed the test of the pattern, so its match exists and is a sign and
  digits: the two branches for a missing match and for \<open>NaN\<close> are there as in the source
  and are never taken.
\<close>

section \<open>The spreadsheet\<close>

text \<open>
  A sheet is what \<open>values.get\<close> returns: a list of rows, a row a list of cells, a cell a
  string. A row may be shorter than its columns; \<open>at r i\<close> is \<open>r[i]\<close>, with \<open>None\<close> for
  \<open>undefined\<close>, and \<open>orElse\<close> is \<open>||\<close> on a cell. Both sheets are the state that the
  operations read and overwrite.
\<close>

type_synonym row = "jsstring list"

record store =
  leaderboard :: "row list"
  salesLog :: "row list"

definition at :: "row \<Rightarrow> nat \<Rightarrow> jsstring option" where
  "at r i = (if i < length r then Some (r ! i) else None)"

definition orElse :: "jsstring option \<Rightarrow> jsstring \<Rightarrow> jsstring" where
  "orElse c d = (case c of None \<Rightarrow> d | Some s \<Rightarrow> if s = [] then d else s)"

definition HEADER :: row where
  "HEADER = [js ''Rep'', js ''Today'', js ''Week'', js ''Month'', js ''Lifetime'', js ''LastUpdate'']"

text \<open>The cells of a leaderboard row, as the program reads them.\<close>

definition rep_of :: "row \<Rightarrow> jsstring" where
  \<comment> \<open>\<open>row[0] || ''\<close>\<close>
  "rep_of r = orElse (at r 0) []"

definition today_of :: "row \<Rightarrow> jsnum" where
  \<comment> \<open>\<open>parseInt(row[1] || '0', 10)\<close>\<close>
  "today_of r = parseInt (orElse (at r 1) (js ''0''))"

definition week_of :: "row \<Rightarrow> jsnum" where
  "week_of r = parseInt (orElse (at r 2) (js ''0''))"

definition month_of :: "row \<Rightarrow> jsnum" where
  "month_of r = parseInt (orElse (at r 3) (js ''0''))"

definition lifetime_of :: "row \<Rightarrow> jsnum" where
  "lifetime_of r = parseInt (orElse (at r 4) (js ''0''))"

definition lastUpdate_of :: "row \<Rightarrow> jsstring" where
  \<comment> \<open>\<open>row[5] || ''\<close>\<close>
  "lastUpdate_of r = orElse (at r 5) []"

section \<open>The leaderboard reconciler\<close>

definition rep_matches :: "(jsstring \<Rightarrow> jsstring) \<Rightarrow> jsstring \<Rightarrow> row \<Rightarrow> bool" where
  \<comment> \<open>\<open>r[0] && r[0].toLowerCase() === repName.toLowerCase()\<close>, for the \<open>toLowerCase\<close> given\<close>
  "rep_matches lc rep r = (rep_of r \<noteq> [] \<and> lc (rep_of r) = lc rep)"

definition new_rep_row :: "jsstring \<Rightarrow> jsstring \<Rightarrow> int \<Rightarrow> row" where
  "new_rep_row nowIso rep reported =
     [rep, toString (Num reported), toString (Num reported), toString (Num reported),
      toString (Num reported), nowIso]"

definition prevToday :: "jsstring \<Rightarrow> row \<Rightarrow> jsnum" where
  \<comment> \<open>the baseline of the delta: the stored Today, or 0 on a new day for this rep\<close>
  "prevToday currentDate r =
     (let prevLastUpdate = lastUpdate_of r;
          prevDate = (if prevLastUpdate \<noteq> [] then Some (take 10 prevLastUpdate) else None)
      in case prevDate of
           None \<Rightarrow> today_of r
         | Some d \<Rightarrow> if d \<noteq> [] \<and> d \<noteq> currentDate then Num 0 else today_of r)"

definition sale_delta :: "jsstring \<Rightarrow> int \<Rightarrow> row \<Rightarrow> jsnum" where
  "sale_delta currentDate reported r =
     (let delta = js_minus (Num reported) (prevToday currentDate r)
      in if js_lt0 delta then Num reported else delta)"

definition updated_rep_row :: "jsstring \<Rightarrow> jsstring \<Rightarrow> int \<Rightarrow> row \<Rightarrow> row" where
  \<comment> \<open>the row was found by its name, so \<open>row[0]\<close> is the non-empty string \<open>rep_of r\<close>\<close>
  "updated_rep_row nowIso currentDate reported r =
     (let delta = sale_delta currentDate reported r
      in [rep_of r, toString (Num reported), toString (js_plus (week_of r) delta),
          toString (js_plus (month_of r) delta), toString (js_plus (lifetime_of r) delta),
          nowIso])"

definition today_desc :: "row \<Rightarrow> row \<Rightarrow> jsnum" where
  \<comment> \<open>the comparator of the sort by Today\<close>
  "today_desc a b = js_minus (today_of b) (today_of a)"

definition reconciled_rows ::
  "(jsstring \<Rightarrow> jsstring) \<Rightarrow> jsstring \<Rightarrow> jsstring \<Rightarrow> int \<Rightarrow> jsstring \<Rightarrow> row list \<Rightarrow> row list" where
  \<comment> \<open>the rows below the header, after the rep's row is pushed or replaced, before the sort\<close>
  "reconciled_rows lc nowIso rep reported currentDate rows =
     (case findIndex (rep_matches lc rep) rows of
        None \<Rightarrow> rows @ [new_rep_row nowIso rep reported]
      | Some repIndex \<Rightarrow>
          rows[repIndex := updated_rep_row nowIso currentDate reported (rows ! repIndex)])"

definition board_values :: "store \<Rightarrow> row list" where
  \<comment> \<open>the leaderboard sheet as read, with the header row that an empty sheet gets\<close>
  "board_values st = (if leaderboard st = [] then [HEADER] else leaderboard st)"

definition updateLeaderboardAndGetStandings ::
  "(jsstring \<Rightarrow> jsstring) \<Rightarrow> jsstring \<Rightarrow> jsstring \<Rightarrow> int \<Rightarrow> 'a SaleDetails_scheme \<Rightarrow> store
     \<Rightarrow> (jsstring option \<times> jsstring option) list \<times> store" where
  \<comment> \<open>\<open>lc\<close> is \<open>toLowerCase\<close>, \<open>nowIso\<close> the clock; the result is the standings and the
      store after both writes\<close>
  "updateLeaderboardAndGetStandings lc nowIso rep reported saleDetails st =
     (let header = hd (board_values st);
          rows = sort_by today_desc
                   (reconciled_rows lc nowIso rep reported (saleDate saleDetails)
                      (tl (board_values st)));
          log_row = [timestamp saleDetails, rep, customerName saleDetails, saleDate saleDetails,
                     installDate saleDetails, provider saleDetails, speed saleDetails,
                     toString (Num reported)]
      in (map (\<lambda>r. (at r 0, at r 1)) rows,
          st \<lparr> leaderboard := header # rows, salesLog := salesLog st @ [log_row] \<rparr>))"

section \<open>The daily recap and reset\<close>

fun map_set :: "'k \<Rightarrow> 'v \<Rightarrow> ('k \<times> 'v) list \<Rightarrow> ('k \<times> 'v) list" where
  \<comment> \<open>\<open>Map.set\<close>: a known key keeps its place, a new key goes last\<close>
  "map_set k v [] = [(k, v)]"
| "map_set k v ((k', v') # m) = (if k' = k then (k, v) # m else (k', v') # map_set k v m)"

definition map_get_or0 :: "('k \<times> nat) list \<Rightarrow> 'k \<Rightarrow> nat" where
  \<comment> \<open>\<open>counts.get(rep) || 0\<close>\<close>
  "map_get_or0 m k = (case map_of m k of None \<Rightarrow> 0 | Some v \<Rightarrow> v)"

definition log_rep :: "row \<Rightarrow> jsstring" where
  \<comment> \<open>\<open>row[1] || ''\<close>\<close>
  "log_rep r = orElse (at r 1) []"

definition log_saleDate :: "row \<Rightarrow> jsstring" where
  \<comment> \<open>\<open>row[3] || ''\<close>\<close>
  "log_saleDate r = orElse (at r 3) []"

definition tally ::
  "jsstring \<Rightarrow> (jsstring \<times> nat) list \<times> nat \<Rightarrow> row \<Rightarrow> (jsstring \<times> nat) list \<times> nat" where
  \<comment> \<open>the body of the loop over the log rows, on \<open>(counts, total)\<close>\<close>
  "tally dateIso acc r =
     (if log_rep r = [] \<or> log_saleDate r = [] then acc
      else if log_saleDate r = dateIso
           then (map_set (log_rep r) (map_get_or0 (fst acc) (log_rep r) + 1) (fst acc),
                 snd acc + 1)
           else acc)"

definition count_desc :: "jsstring \<times> nat \<Rightarrow> jsstring \<times> nat \<Rightarrow> jsnum" where
  \<comment> \<open>the comparator \<open>b.count - a.count\<close>\<close>
  "count_desc a b = Num (int (snd b) - int (snd a))"

definition getDailySummary :: "jsstring \<Rightarrow> store \<Rightarrow> (jsstring \<times> nat) list \<times> nat" where
  \<comment> \<open>the result is \<open>(perRep, total)\<close>\<close>
  "getDailySummary dateIso st =
     (if length (salesLog st) \<le> 1 then ([], 0)
      else
        let res = foldl (tally dateIso) ([], 0) (tl (salesLog st))
        in (sort_by count_desc (fst res), snd res))"

definition reset_row :: "bool \<Rightarrow> jsstring \<Rightarrow> row \<Rightarrow> row" where
  "reset_row isMonday nowIso r =
     (if rep_of r = [] then r
      else [rep_of r, toString (Num 0), toString (if isMonday then Num 0 else week_of r),
            toString (month_of r), toString (lifetime_of r), nowIso])"

definition resetTodayAndMaybeWeek ::
  "(jsstring \<Rightarrow> jsnum) \<Rightarrow> jsstring \<Rightarrow> jsstring \<Rightarrow> store \<Rightarrow> store" where
  \<comment> \<open>\<open>getDay s\<close> is \<open>new Date(s).getDay()\<close> in the time zone of the process, \<open>nowIso\<close> the
      clock\<close>
  "resetTodayAndMaybeWeek getDay nowIso currentDateIso st =
     (let header = hd (board_values st);
          isMonday = (getDay currentDateIso = Num 1)
      in st \<lparr> leaderboard := header # map (reset_row isMonday nowIso) (tl (board_values st)) \<rparr>)"

section \<open>The webhook\<close>

datatype reply =
  Ignored_bot_message | No_sales_data_parsed | OK "(jsstring option \<times> jsstring option) list"

definition webhook ::
  "(jsstring \<Rightarrow> jsstring) \<Rightarrow> jsstring \<Rightarrow> jsstring \<Rightarrow> jsstring \<Rightarrow> jsstring \<Rightarrow> jsstring \<Rightarrow> store
     \<Rightarrow> reply \<times> store" where
  \<comment> \<open>\<open>now\<close> is the clock read by the parser, \<open>nowIso\<close> the one read by the reconciler\<close>
  "webhook lc now nowIso text name sender_type st =
     (if sender_type = js ''bot'' then (Ignored_bot_message, st)
      else
        case parseSalesMessage now text name of
          None \<Rightarrow> (No_sales_data_parsed, st)
        | Some parsed \<Rightarrow>
            (let res = updateLeaderboardAndGetStandings lc nowIso (repName parsed)
                         (todayReported parsed) parsed st
             in (OK (fst res), snd res)))"

section \<open>Safe integers\<close>

definition MAX_SAFE_INTEGER :: int where
  "MAX_SAFE_INTEGER = 9007199254740991"

definition safe :: "jsnum \<Rightarrow> bool" where
  \<comment> \<open>\<open>NaN\<close>, or an integer that \<open>Number.isSafeInteger\<close> accepts\<close>
  "safe x = (case x of NaN \<Rightarrow> True | Num i \<Rightarrow> - MAX_SAFE_INTEGER \<le> i \<and> i \<le> MAX_SAFE_INTEGER)"

definition safe_update :: "jsstring \<Rightarrow> int \<Rightarrow> row \<Rightarrow> bool" where
  \<comment> \<open>every number that the update of a rep's row reads, computes or writes is safe\<close>
  "safe_update currentDate reported r =
     (safe (Num reported) \<and> safe (today_of r) \<and> safe (week_of r) \<and> safe (month_of r)
      \<and> safe (lifetime_of r)
      \<and> safe (js_minus (Num reported) (prevToday currentDate r))
      \<and> safe (js_plus (week_of r) (sale_delta currentDate reported r))
      \<and> safe (js_plus (month_of r) (sale_delta currentDate reported r))
      \<and> safe (js_plus (lifetime_of r) (sale_delta currentDate reported r)))"

section \<open>The weekday of a date\<close>

text \<open>
  \<open>new Date(s)\<close> reads a date of the form \<open>YYYY-MM-DD\<close> as midnight UTC of that day, and
  \<open>getDay()\<close> gives the weekday of that instant in the time zone of the process, 0 for
  Sunday. The time zone is a parameter: \<open>tz\<close> is the number of minutes that the local clock
  is ahead of UTC at that instant. What the engine makes of any other string is the
  parameter \<open>legacy\<close>.
\<close>

definition is_leap :: "int \<Rightarrow> bool" where
  "is_leap y = (if y mod 400 = 0 then True else if y mod 100 = 0 then False else y mod 4 = 0)"

definition month_lengths :: "int \<Rightarrow> int list" where
  "month_lengths y = [31, if is_leap y then 29 else 28, 31, 30, 31, 30, 31, 31, 30, 31, 30, 31]"

definition days_before_year :: "int \<Rightarrow> int" where
  \<comment> \<open>the days from 1970-01-01 to the first of January of the year; 477 leap years precede 1970\<close>
  "days_before_year y =
     365 * (y - 1970) + ((y - 1) div 4 - (y - 1) div 100 + (y - 1) div 400) - 477"

definition days_before_month :: "int \<Rightarrow> int \<Rightarrow> int" where
  \<comment> \<open>the days of the year before month \<open>m\<close>, for a month from 1 to 12\<close>
  "days_before_month y m = sum_list (take (nat (m - 1)) (month_lengths y))"

definition day_number :: "int \<times> int \<times> int \<Rightarrow> int" where
  \<comment> \<open>the days from 1970-01-01 to the date\<close>
  "day_number ymd =
     (case ymd of (y, m, d) \<Rightarrow> days_before_year y + days_before_month y m + (d - 1))"

definition iso_date :: "jsstring \<Rightarrow> (int \<times> int \<times> int) option" where
  \<comment> \<open>year, month and day of a calendar date written \<open>YYYY-MM-DD\<close>\<close>
  "iso_date s =
     (if length s = 10 \<and> list_all is_digit (take 4 s) \<and> s ! 4 = 45
         \<and> list_all is_digit (take 2 (drop 5 s)) \<and> s ! 7 = 45 \<and> list_all is_digit (drop 8 s)
      then
        let y = int (digits_value (take 4 s));
            m = int (digits_value (take 2 (drop 5 s)));
            d = int (digits_value (drop 8 s))
        in if 1 \<le> m \<and> m \<le> 12 \<and> 1 \<le> d \<and> d \<le> month_lengths y ! nat (m - 1)
           then Some (y, m, d) else None
      else None)"

definition weekday_of_date :: "jsstring \<Rightarrow> int option" where
  \<comment> \<open>the weekday on which a calendar date falls, 0 for Sunday, 1 for Monday; 1970-01-01
      was a Thursday\<close>
  "weekday_of_date s = map_option (\<lambda>ymd. (day_number ymd + 4) mod 7) (iso_date s)"

definition js_getDay :: "int \<Rightarrow> (jsstring \<Rightarrow> jsnum) \<Rightarrow> jsstring \<Rightarrow> jsnum" where
  \<comment> \<open>\<open>new Date(s).getDay()\<close> in a process \<open>tz\<close> minutes ahead of UTC\<close>
  "js_getDay tz legacy s =
     (case iso_date s of
        None \<Rightarrow> legacy s
      | Some ymd \<Rightarrow> Num (((day_number ymd * 1440 + tz) div 1440 + 4) mod 7))"

section \<open>Notions of the specification and example inputs\<close>

definition first_seen :: "'a list \<Rightarrow> 'a list" where
  \<comment> \<open>the elements of a list in the order in which they are first encountered\<close>
  "first_seen xs = rev (remdups (rev xs))"

definition counted :: "jsstring \<Rightarrow> row \<Rightarrow> bool" where
  \<comment> \<open>the log rows that the recap counts for a date\<close>
  "counted dateIso r = (log_rep r \<noteq> [] \<and> log_saleDate r \<noteq> [] \<and> log_saleDate r = dateIso)"

definition ascii_lower :: "jsstring \<Rightarrow> jsstring" where
  \<comment> \<open>\<open>toLowerCase\<close> on ASCII text, the lower-casing that the examples run with\<close>
  "ascii_lower s = map (\<lambda>c. if 65 \<le> c \<and> c \<le> 90 then c + 32 else c) s"

definition now_ex :: jsstring where
  "now_ex = js ''2025-11-25T18:30:00.000Z''"

definition msg_fallback :: jsstring where
  \<comment> \<open>the second example of the parser's comment; the first two code units are the emoji\<close>
  "msg_fallback = [55357, 56566] @ js ''+2 Elliott Ezell 11/25 Kinetic 2G max 1-3''"

definition msg_jane :: jsstring where
  \<comment> \<open>the first example of the parser's comment\<close>
  "msg_jane = [55357, 57052] @ js '' +1 Jane Doe 11/25 Kinetic 1G''"

definition msg_minus :: jsstring where
  "msg_minus = [55357, 57052] @ js '' -3 Jane Doe 11/25 Kinetic 1G''"

definition msg_two_dates :: jsstring where
  "msg_two_dates = js ''sold 11/25 Jane 11/26 Kinetic 1G''"

definition board_bob :: store where
  "board_bob =
     \<lparr> leaderboard =
         [HEADER, [js ''Bob'', js ''0'', js ''5'', js ''5'', js ''5'', js ''2025-11-25T09:00:00.000Z'']],
       salesLog =
         [[js ''Timestamp'', js ''Rep'', js ''Customer'', js ''SaleDate'', js ''InstallDate'',
           js ''Provider'', js ''Speed'', js ''TodayReported'']] \<rparr>"

definition details_ex :: SaleDetails where
  "details_ex =
     \<lparr> customerName = js ''Jane Doe'', installDate = js ''11/25'', provider = js ''Kinetic'',
       speed = js ''1G'', saleDate = js ''2025-11-25'', timestamp = now_ex \<rparr>"

definition board_same_day :: store where
  \<comment> \<open>Bob reported 4 earlier on 2025-11-25\<close>
  "board_same_day =
     \<lparr> leaderboard =
         [HEADER,
          [js ''Ann'', js ''6'', js ''6'', js ''6'', js ''6'', js ''2025-11-25T08:00:00.000Z''],
          [js ''Bob'', js ''4'', js ''9'', js ''20'', js ''30'', js ''2025-11-25T09:00:00.000Z'']],
       salesLog = [] \<rparr>"

definition board_day_before :: store where
  \<comment> \<open>Bob's last report, of 4, is of 2025-11-24\<close>
  "board_day_before =
     \<lparr> leaderboard =
         [HEADER,
          [js ''Bob'', js ''4'', js ''9'', js ''20'', js ''30'', js ''2025-11-24T17:00:00.000Z'']],
       salesLog = [] \<rparr>"

definition board_blank_rep :: store where
  \<comment> \<open>a row without a name, between two named rows\<close>
  "board_blank_rep =
     \<lparr> leaderboard =
         [HEADER,
          [js ''Ann'', js ''6'', js ''6'', js ''6'', js ''6'', js ''2025-11-23T08:00:00.000Z''],
          [[], js ''5'', js ''7'', js ''9'', js ''9'', js ''2025-11-23T09:00:00.000Z'']],
       salesLog = [] \<rparr>"

definition empty_store :: store where
  \<comment> \<open>both sheets blank\<close>
  "empty_store = \<lparr> leaderboard = [], salesLog = [] \<rparr>"

definition log_row_ex :: "jsstring \<Rightarrow> jsstring \<Rightarrow> row" where
  "log_row_ex rep sale_date =
     [now_ex, rep, js ''Jane Doe'', sale_date, js ''11/25'', js ''Kinetic'', js ''1G'', js ''1'']"

definition log_ex :: store where
  "log_ex =
     \<lparr> leaderboard = [],
       salesLog =
         [[js ''Timestamp'', js ''Rep'', js ''Customer'', js ''SaleDate'', js ''InstallDate'',
           js ''Provider'', js ''Speed'', js ''TodayReported''],
          log_row_ex (js ''Bob'') (js ''2025-11-25''),
          log_row_ex (js ''Alice'') (js ''2025-11-25''),
          log_row_ex (js ''Cy'') (js ''2025-11-24''),
          log_row_ex (js ''Alice'') (js ''2025-11-25''),
          log_row_ex (js ''Dee'') (js ''2025-11-25'')] \<rparr>"

section \<open>Auxiliary facts\<close>

subsection \<open>Numbers and their decimal text\<close>

lemma digits_of_all_digits: "list_all is_digit (digits_of n)"
proof (induction n rule: digits_of.induct)
  case (1 n)
  show ?case
  proof (cases "n < 10")
    case True
    then show ?thesis by (subst digits_of.simps) (simp add: is_digit_def)
  next
    case False
    have "n mod 10 < 10" by simp
    then have "is_digit (48 + n mod 10)" unfolding is_digit_def by linarith
    with False "1.IH" show ?thesis by (subst digits_of.simps) simp
  qed
qed

lemma digits_of_not_empty: "digits_of n \<noteq> []"
  by (subst digits_of.simps) simp

lemma digits_value_snoc: "digits_value (ds @ [c]) = 10 * digits_value ds + (c - 48)"
  by (simp add: digits_value_def)

lemma digits_value_digits_of: "digits_value (digits_of n) = n"
proof (induction n rule: digits_of.induct)
  case (1 n)
  show ?case
  proof (cases "n < 10")
    case True
    then show ?thesis by (subst digits_of.simps) (simp add: digits_value_def)
  next
    case False
    with "1.IH" show ?thesis
      by (subst digits_of.simps) (simp add: digits_value_snoc)
  qed
qed

lemma hd_digits_of_digit: "is_digit (hd (digits_of n))"
  using digits_of_all_digits [of n] digits_of_not_empty [of n]
  by (cases "digits_of n") simp_all

lemma digit_not_space: "is_digit c \<Longrightarrow> \<not> is_space c"
  by (auto simp: is_digit_def is_space_def)

lemma digit_not_sign: "is_digit c \<Longrightarrow> c \<noteq> 43 \<and> c \<noteq> 45"
  by (auto simp: is_digit_def)

lemma parseInt_digits:
  assumes "ds \<noteq> []" and "\<forall>c \<in> set ds. is_digit c"
  shows "parseInt ds = Num (int (digits_value ds))"
    and "parseInt (43 # ds) = Num (int (digits_value ds))"
    and "parseInt (45 # ds) = Num (- int (digits_value ds))"
proof -
  obtain c cs where d: "ds = c # cs" using assms(1) by (cases ds) auto
  have c: "is_digit c" using assms(2) d by simp
  have tw: "takeWhile is_digit ds = ds" using assms(2) by simp
  have sp: "\<not> is_space c" "\<not> is_space 43" "\<not> is_space 45"
    using digit_not_space [OF c] by (simp_all add: is_space_def)
  have dw: "dropWhile is_space ds = ds" using sp(1) d by simp
  show "parseInt ds = Num (int (digits_value ds))"
  proof -
    have "hd ds \<noteq> 43 \<and> hd ds \<noteq> 45" using digit_not_sign [OF c] d by simp
    then show ?thesis
      unfolding parseInt_def Let_def dw using assms(1) by (simp add: tw)
  qed
  show "parseInt (43 # ds) = Num (int (digits_value ds))"
    unfolding parseInt_def Let_def using sp(2) assms(1) by (simp add: tw)
  show "parseInt (45 # ds) = Num (- int (digits_value ds))"
    unfolding parseInt_def Let_def using sp(3) assms(1) by (simp add: tw)
qed

lemma digits_of_set_digits: "\<forall>c \<in> set (digits_of n). is_digit c"
  using digits_of_all_digits [of n] by (simp add: list_all_iff)

lemma parseInt_digits_of: "parseInt (digits_of n) = Num (int n)"
  using parseInt_digits(1) [OF digits_of_not_empty digits_of_set_digits, of n]
  by (simp add: digits_value_digits_of)

lemma parseInt_minus_digits_of: "parseInt (45 # digits_of n) = Num (- int n)"
  using parseInt_digits(3) [OF digits_of_not_empty digits_of_set_digits, of n]
  by (simp add: digits_value_digits_of)

lemma parseInt_NaN_text: "parseInt (js ''NaN'') = NaN"
  by (simp add: parseInt_def js_def is_space_def is_digit_def Let_def)

lemma parseInt_toString: "parseInt (toString x) = x"
proof (cases x)
  case (Num i)
  show ?thesis
  proof (cases "i < 0")
    case True
    then show ?thesis using Num parseInt_minus_digits_of [of "nat (- i)"]
      by (simp add: toString_def)
  next
    case False
    then show ?thesis using Num parseInt_digits_of [of "nat i"]
      by (simp add: toString_def)
  qed
next
  case NaN
  then show ?thesis by (simp add: toString_def parseInt_NaN_text)
qed

lemma toString_not_empty: "toString x \<noteq> []"
  by (cases x) (simp_all add: toString_def digits_of_not_empty js_def)

lemma orElse_toString: "orElse (Some (toString x)) d = toString x"
  by (simp add: orElse_def toString_not_empty)

subsection \<open>Arrays\<close>

lemma findIndex_None_iff: "findIndex p xs = None \<longleftrightarrow> (\<forall>x \<in> set xs. \<not> p x)"
  by (induction xs) (auto split: option.splits)

lemma findIndex_Some:
  "findIndex p xs = Some i \<Longrightarrow> i < length xs \<and> p (xs ! i) \<and> (\<forall>j < i. \<not> p (xs ! j))"
proof (induction xs arbitrary: i)
  case Nil
  then show ?case by simp
next
  case (Cons x xs)
  show ?case
  proof (cases "p x")
    case True
    with Cons.prems show ?thesis by simp
  next
    case False
    with Cons.prems obtain k where k: "findIndex p xs = Some k" "i = Suc k"
      by (auto split: option.splits)
    from Cons.IH [OF k(1)] False k(2) show ?thesis
      by (auto simp: nth_Cons split: nat.splits)
  qed
qed

lemma mset_insert_by: "mset (insert_by cmp x xs) = add_mset x (mset xs)"
  by (induction xs) auto

lemma mset_sort_by: "mset (sort_by cmp xs) = mset xs"
  by (induction xs) (auto simp: mset_insert_by)

lemma set_sort_by: "set (sort_by cmp xs) = set xs"
  using mset_sort_by [of cmp xs] by (metis set_mset_mset)

lemma length_sort_by: "length (sort_by cmp xs) = length xs"
  using mset_sort_by [of cmp xs] by (metis size_mset)

subsection \<open>The patterns of the parser\<close>

lemma numberRegex_match_parses:
  "numberRegex_match t = Some m \<Longrightarrow> \<exists>n. parseInt m = Num n"
proof (induction t)
  case Nil
  then show ?case by simp
next
  case (Cons c cs)
  show ?case
  proof (cases "(c = 43 \<or> c = 45) \<and> cs \<noteq> [] \<and> is_digit (hd cs)")
    case True
    then have m: "m = c # takeWhile is_digit cs" using Cons.prems by simp
    from True have ne: "takeWhile is_digit cs \<noteq> []" by (cases cs) auto
    have ad: "\<forall>x \<in> set (takeWhile is_digit cs). is_digit x"
      by (auto dest: set_takeWhileD)
    from True parseInt_digits(2,3) [OF ne ad] m show ?thesis by auto
  next
    case False
    note nosign = this
    show ?thesis
    proof (cases "is_digit c")
      case True
      then have m: "m = takeWhile is_digit (c # cs)" using Cons.prems nosign
        by (auto split: if_splits)
      have ne: "takeWhile is_digit (c # cs) \<noteq> []" using True by simp
      have ad: "\<forall>x \<in> set (takeWhile is_digit (c # cs)). is_digit x"
        by (auto dest: set_takeWhileD)
      from parseInt_digits(1) [OF ne ad] m show ?thesis by auto
    next
      case False
      with nosign Cons.prems have "numberRegex_match cs = Some m"
        by (auto split: if_splits)
      then show ?thesis by (rule Cons.IH)
    qed
  qed
qed

lemma dateRegex_has_number: "dateRegex t \<Longrightarrow> numberRegex_test t"
proof -
  assume d: "dateRegex t"
  then have "takeWhile is_digit t \<noteq> []" by (auto simp: dateRegex_def Let_def)
  then obtain c cs where t: "t = c # cs" and c: "is_digit c"
    by (cases t) (auto split: if_splits)
  from c have "c \<noteq> 43 \<and> c \<noteq> 45" by (rule digit_not_sign)
  with c t show ?thesis by (simp add: numberRegex_test_def)
qed

lemma findIndex_le:
  assumes "\<And>x. q x \<Longrightarrow> p x" and "findIndex q xs = Some d"
  shows "\<exists>c. findIndex p xs = Some c \<and> c \<le> d"
  using assms(2)
proof (induction xs arbitrary: d)
  case Nil
  then show ?case by simp
next
  case (Cons x xs)
  show ?case
  proof (cases "p x")
    case True
    then show ?thesis by simp
  next
    case False
    then have nq: "\<not> q x" using assms(1) by blast
    with Cons.prems obtain k where k: "findIndex q xs = Some k" "d = Suc k"
      by (auto split: option.splits)
    from Cons.IH [OF k(1)] obtain c where "findIndex p xs = Some c" "c \<le> k" by blast
    with False k(2) show ?thesis by simp
  qed
qed

lemma count_before_date:
  "findIndex dateRegex ts = Some d \<Longrightarrow> \<exists>c. findIndex numberRegex_test ts = Some c \<and> c \<le> d"
  by (rule findIndex_le [of dateRegex numberRegex_test]) (rule dateRegex_has_number)

lemma tokens_of_empty: "length (split_ws (trim [])) = 1"
  by (simp add: trim_def split_ws.simps)

lemma count_token_parses:
  assumes "findIndex numberRegex_test ts = Some c"
  shows "\<exists>m n. numberRegex_match (ts ! c) = Some m \<and> parseInt m = Num n"
proof -
  from findIndex_Some [OF assms] have "numberRegex_test (ts ! c)" by blast
  then obtain m where m: "numberRegex_match (ts ! c) = Some m"
    by (auto simp: numberRegex_test_def)
  from numberRegex_match_parses [OF m] m show ?thesis by blast
qed

lemma parse_after_count:
  assumes len: "3 \<le> length (split_ws (trim text))"
    and c: "findIndex numberRegex_test (split_ws (trim text)) = Some c"
    and d: "findIndex dateRegex (split_ws (trim text)) = Some d"
    and cd: "c < d"
  shows "\<exists>ev. parseSalesMessage now text sender = Some ev
           \<and> installDate ev = split_ws (trim text) ! d \<and> repName ev = sender"
proof -
  from count_token_parses [OF c] obtain m n
    where m: "numberRegex_match (split_ws (trim text) ! c) = Some m" "parseInt m = Num n"
    by blast
  have ne: "text \<noteq> []" using len tokens_of_empty by auto
  show ?thesis
    using ne len c d cd m by (simp add: parseSalesMessage_def Let_def)
qed

lemma parse_Some_date:
  assumes "parseSalesMessage now text sender = Some ev"
  shows "3 \<le> length (split_ws (trim text)) \<and>
         (\<exists>c d. findIndex numberRegex_test (split_ws (trim text)) = Some c
            \<and> findIndex dateRegex (split_ws (trim text)) = Some d \<and> c < d
            \<and> installDate ev = split_ws (trim text) ! d)"
  using assms
  by (auto simp: parseSalesMessage_def Let_def split: if_splits option.splits jsnum.splits)

section \<open>The parser on its documented examples\<close>

lemmas pattern_defs = numberRegex_test_def dateRegex_def speedPattern_def is_digit_def

lemma tokens_fallback:
  "split_ws (trim msg_fallback) =
     [[55357, 56566, 43, 50], js ''Elliott'', js ''Ezell'', js ''11/25'', js ''Kinetic'',
      js ''2G'', js ''max'', js ''1-3'']"
  by (simp add: msg_fallback_def js_def trim_def is_space_def split_ws.simps)

lemma tokens_jane:
  "split_ws (trim msg_jane) =
     [[55357, 57052], js ''+1'', js ''Jane'', js ''Doe'', js ''11/25'', js ''Kinetic'', js ''1G'']"
  by (simp add: msg_jane_def js_def trim_def is_space_def split_ws.simps)

lemma tokens_minus:
  "split_ws (trim msg_minus) =
     [[55357, 57052], js ''-3'', js ''Jane'', js ''Doe'', js ''11/25'', js ''Kinetic'', js ''1G'']"
  by (simp add: msg_minus_def js_def trim_def is_space_def split_ws.simps)

lemma tokens_two_dates:
  "split_ws (trim msg_two_dates) =
     [js ''sold'', js ''11/25'', js ''Jane'', js ''11/26'', js ''Kinetic'', js ''1G'']"
  by (simp add: msg_two_dates_def js_def trim_def is_space_def split_ws.simps)

text \<open>
  Claim C2. The parser's comment gives the message \<open>+2 Elliott Ezell 11/25 Kinetic 2G max 1-3\<close>
  (behind an emoji) as a format it handles, with "extra words after speed", and the claim
  expects speed \<open>2G\<close> and provider \<open>Kinetic\<close> for it. The program looks at the last two
  tokens only: \<open>1-3\<close> and \<open>max\<close> both fail the speed pattern, so the last token stays the
  speed and everything between the date and it becomes the provider. The result is speed
  \<open>1-3\<close> and provider \<open>Kinetic 2G max\<close>, although \<open>2G\<close> has the pattern.
\<close>

theorem fallback_example_speed:
  "parseSalesMessage now_ex msg_fallback (js ''Bob'') =
     Some \<lparr> customerName = js ''Elliott Ezell'', installDate = js ''11/25'',
            provider = js ''Kinetic 2G max'', speed = js ''1-3'',
            saleDate = js ''2025-11-25'', timestamp = now_ex,
            repName = js ''Bob'', todayReported = 2 \<rparr>
   \<and> speedPattern (js ''2G'') \<and> \<not> speedPattern (js ''max'') \<and> \<not> speedPattern (js ''1-3'')"
proof -
  have ne: "msg_fallback \<noteq> []" by (simp add: msg_fallback_def)
  show ?thesis
    unfolding parseSalesMessage_def tokens_fallback
    using ne
    by (simp add: pattern_defs parseInt_def digits_value_def is_space_def slice_def
          js_def now_ex_def Let_def)
qed

section \<open>The date token\<close>

text \<open>
  Claim C3, as stated, fails. It says that the date token is the first token with the
  pattern digits/digits at or after \<open>countIndex + 1\<close>, also when an earlier token has the
  pattern, and that the parser returns null only when there is none. The program searches
  all tokens from the first one and gives up when its find is not behind the count token.
  In \<open>sold 11/25 Jane 11/26 Kinetic 1G\<close> the count token is \<open>11/25\<close> (index 1), the token
  \<open>11/26\<close> (index 3) has the date pattern, and the parser returns null.
\<close>

theorem two_dates_counterexample:
  "split_ws (trim msg_two_dates) =
     [js ''sold'', js ''11/25'', js ''Jane'', js ''11/26'', js ''Kinetic'', js ''1G'']
   \<and> findIndex numberRegex_test (split_ws (trim msg_two_dates)) = Some 1
   \<and> dateRegex (split_ws (trim msg_two_dates) ! 3)
   \<and> parseSalesMessage now_ex msg_two_dates (js ''Bob'') = None"
proof -
  have ne: "msg_two_dates \<noteq> []" by (simp add: msg_two_dates_def js_def)
  show ?thesis
    unfolding parseSalesMessage_def tokens_two_dates
    using ne
    by (simp add: pattern_defs parseInt_def digits_value_def is_space_def js_def Let_def)
qed

text \<open>
  Claim C3, amended. The date token is the first token of the whole message with the pattern
  digits/digits, and a sale is returned only when it comes after the count token. The
  parser returns null exactly when the message has fewer than three tokens, or no token has
  the date pattern, or the first token with the date pattern is also the first token that
  holds a number, that is the count token itself; a later token with the pattern does not
  help.
\<close>

theorem parse_date_token:
  assumes "tokens = split_ws (trim text)"
  shows "(\<forall>ev. parseSalesMessage now text sender = Some ev \<longrightarrow>
            (\<exists>c d. findIndex numberRegex_test tokens = Some c \<and> findIndex dateRegex tokens = Some d
               \<and> c < d \<and> installDate ev = tokens ! d))
       \<and> (parseSalesMessage now text sender = None \<longleftrightarrow>
            length tokens < 3 \<or> findIndex dateRegex tokens = None
            \<or> findIndex dateRegex tokens = findIndex numberRegex_test tokens)"
proof (intro conjI allI impI)
  fix ev assume "parseSalesMessage now text sender = Some ev"
  from parse_Some_date [OF this] assms
  show "\<exists>c d. findIndex numberRegex_test tokens = Some c \<and> findIndex dateRegex tokens = Some d
          \<and> c < d \<and> installDate ev = tokens ! d" by simp
next
  show "parseSalesMessage now text sender = None \<longleftrightarrow>
          length tokens < 3 \<or> findIndex dateRegex tokens = None
          \<or> findIndex dateRegex tokens = findIndex numberRegex_test tokens"
  proof
    assume none: "parseSalesMessage now text sender = None"
    show "length tokens < 3 \<or> findIndex dateRegex tokens = None
            \<or> findIndex dateRegex tokens = findIndex numberRegex_test tokens"
    proof (rule ccontr)
      assume neg: "\<not> ?thesis"
      then have len: "3 \<le> length (split_ws (trim text))" using assms by simp
      from neg obtain d where d: "findIndex dateRegex (split_ws (trim text)) = Some d"
        using assms by auto
      from count_before_date [OF d] obtain c
        where c: "findIndex numberRegex_test (split_ws (trim text)) = Some c" "c \<le> d" by blast
      with neg d assms have "c < d" by auto
      from parse_after_count [OF len c(1) d this, of now sender] none show False by auto
    qed
  next
    assume h: "length tokens < 3 \<or> findIndex dateRegex tokens = None
                 \<or> findIndex dateRegex tokens = findIndex numberRegex_test tokens"
    show "parseSalesMessage now text sender = None"
    proof (cases "parseSalesMessage now text sender")
      case None
      then show ?thesis .
    next
      case (Some ev)
      from parse_Some_date [OF Some] h assms show ?thesis by auto
    qed
  qed
qed

theorem parse_date_token_witness:
  "(\<exists>ev. parseSalesMessage now_ex msg_jane (js ''Alice'') = Some ev \<and> installDate ev = js ''11/25'')
   \<and> findIndex numberRegex_test (split_ws (trim msg_jane)) = Some 1
   \<and> findIndex dateRegex (split_ws (trim msg_jane)) = Some 4
   \<and> parseSalesMessage now_ex msg_two_dates (js ''Bob'') = None
   \<and> findIndex dateRegex (split_ws (trim msg_two_dates)) = Some 1"
proof -
  have c: "findIndex numberRegex_test (split_ws (trim msg_jane)) = Some 1"
    unfolding tokens_jane by (simp add: pattern_defs js_def)
  have d: "findIndex dateRegex (split_ws (trim msg_jane)) = Some 4"
    unfolding tokens_jane by (simp add: pattern_defs js_def)
  have t: "split_ws (trim msg_jane) ! 4 = js ''11/25''"
    unfolding tokens_jane by simp
  have c2: "findIndex numberRegex_test (split_ws (trim msg_two_dates)) = Some 1"
    unfolding tokens_two_dates by (simp add: pattern_defs js_def)
  have d2: "findIndex dateRegex (split_ws (trim msg_two_dates)) = Some 1"
    unfolding tokens_two_dates by (simp add: pattern_defs js_def)
  have l: "length (split_ws (trim msg_jane)) = 7"
    unfolding tokens_jane by simp
  from parse_date_token [OF refl, of now_ex msg_jane "js ''Alice''"] c d t l
  have "\<exists>ev. parseSalesMessage now_ex msg_jane (js ''Alice'') = Some ev \<and> installDate ev = js ''11/25''"
    by (cases "parseSalesMessage now_ex msg_jane (js ''Alice'')") auto
  moreover from parse_date_token [OF refl, of now_ex msg_two_dates "js ''Bob''"] c2 d2
  have "parseSalesMessage now_ex msg_two_dates (js ''Bob'') = None" by simp
  ultimately show ?thesis using c d d2 by simp
qed

section \<open>The reconciler\<close>

subsection \<open>Rows as written and as read\<close>

lemma orElse_Some_empty_default: "orElse (Some s) [] = s"
  by (simp add: orElse_def)

lemma written_row_reads:
  assumes "r = [rep, toString a, toString b, toString c, toString d, t]"
  shows "rep_of r = rep" and "today_of r = a" and "week_of r = b" and "month_of r = c"
    and "lifetime_of r = d" and "lastUpdate_of r = t"
  using assms
  by (simp_all add: rep_of_def today_of_def week_of_def month_of_def lifetime_of_def
        lastUpdate_of_def at_def orElse_toString parseInt_toString orElse_Some_empty_default)

lemma toString_zero: "toString (Num 0) = js ''0''"
  by (simp add: toString_def digits_of.simps js_def)

subsection \<open>The store after a reconciliation\<close>

lemma update_leaderboard:
  assumes "updateLeaderboardAndGetStandings lc nowIso rep n details st = (standings, st')"
  shows "leaderboard st' =
           hd (board_values st) #
             sort_by today_desc
               (reconciled_rows lc nowIso rep n (saleDate details) (tl (board_values st)))"
  using assms by (auto simp: updateLeaderboardAndGetStandings_def Let_def)

lemma update_rows_mset:
  assumes "updateLeaderboardAndGetStandings lc nowIso rep n details st = (standings, st')"
  shows "mset (tl (leaderboard st')) =
           mset (reconciled_rows lc nowIso rep n (saleDate details) (tl (board_values st)))"
  using update_leaderboard [OF assms] by (simp add: mset_sort_by)

lemma reconciled_new:
  assumes "findIndex (rep_matches lc rep) rows = None"
  shows "mset (reconciled_rows lc nowIso rep n cd rows) =
           add_mset (new_rep_row nowIso rep n) (mset rows)"
  using assms by (simp add: reconciled_rows_def)

lemma reconciled_existing:
  assumes "findIndex (rep_matches lc rep) rows = Some i"
  shows "mset (reconciled_rows lc nowIso rep n cd rows) =
           add_mset (updated_rep_row nowIso cd n (rows ! i)) (mset rows - {#rows ! i#})"
proof -
  from findIndex_Some [OF assms] have "i < length rows" by blast
  then show ?thesis using assms by (simp add: reconciled_rows_def mset_update)
qed

lemma unmatched_kept:
  assumes "p x"
  shows "filter_mset (\<lambda>r. \<not> p r) M \<subseteq># M - {#x#}"
proof -
  have "filter_mset (\<lambda>r. \<not> p r) M = filter_mset (\<lambda>r. \<not> p r) (M - {#x#})"
    using assms by (simp add: filter_diff_mset)
  then show ?thesis by (metis multiset_filter_subset)
qed

lemma prevToday_cases:
  "prevToday cd r =
     (if lastUpdate_of r \<noteq> [] \<and> take 10 (lastUpdate_of r) \<noteq> cd then Num 0 else today_of r)"
  by (simp add: prevToday_def Let_def)

lemma update_existing_mset:
  assumes "findIndex (rep_matches lc rep) (tl (board_values st)) = Some i"
    and "updateLeaderboardAndGetStandings lc nowIso rep n details st = (standings, st')"
  shows "mset (tl (leaderboard st')) =
           add_mset (updated_rep_row nowIso (saleDate details) n (tl (board_values st) ! i))
             (mset (tl (board_values st)) - {#tl (board_values st) ! i#})"
  using update_rows_mset [OF assms(2)] reconciled_existing [OF assms(1)] by simp

lemmas cell_defs = board_values_def rep_of_def today_of_def week_of_def month_of_def
  lifetime_of_def lastUpdate_of_def at_def orElse_def HEADER_def js_def

lemmas number_defs = parseInt_def digits_value_def is_space_def is_digit_def toString_def
  digits_of.simps js_minus_def js_plus_def js_lt0_def js_gt0_def

lemmas reconciler_defs = updateLeaderboardAndGetStandings_def reconciled_rows_def
  rep_matches_def ascii_lower_def new_rep_row_def updated_rep_row_def sale_delta_def
  prevToday_def today_desc_def details_ex_def now_ex_def

subsection \<open>A new rep\<close>

text \<open>
  Claim C8. When no row of the leaderboard matches the rep's name (compared in lower case),
  the reconciler adds exactly one row: the persisted rows are the old rows and the new one,
  whose Today, Week, Month and Lifetime all read as the reported number and whose
  LastUpdate is the current time. The reported number is a safe integer, where the decimal
  text of the model is the text that the program writes.
\<close>

theorem new_rep_entry:
  assumes "\<forall>r \<in> set (tl (board_values st)). \<not> rep_matches lc rep r"
    and "updateLeaderboardAndGetStandings lc nowIso rep n details st = (standings, st')"
    and "safe (Num n)"
  shows "mset (tl (leaderboard st')) =
           add_mset (new_rep_row nowIso rep n) (mset (tl (board_values st)))
       \<and> rep_of (new_rep_row nowIso rep n) = rep
       \<and> today_of (new_rep_row nowIso rep n) = Num n
       \<and> week_of (new_rep_row nowIso rep n) = Num n
       \<and> month_of (new_rep_row nowIso rep n) = Num n
       \<and> lifetime_of (new_rep_row nowIso rep n) = Num n
       \<and> lastUpdate_of (new_rep_row nowIso rep n) = nowIso"
proof -
  from assms(1) have none: "findIndex (rep_matches lc rep) (tl (board_values st)) = None"
    by (simp add: findIndex_None_iff)
  from update_rows_mset [OF assms(2)] reconciled_new [OF none]
  have "mset (tl (leaderboard st')) =
          add_mset (new_rep_row nowIso rep n) (mset (tl (board_values st)))" by simp
  then show ?thesis
    using written_row_reads [OF new_rep_row_def [of nowIso rep n]] by simp
qed

theorem new_rep_entry_witness:
  "\<not> rep_matches ascii_lower (js ''Cy'') (tl (board_values board_day_before) ! 0)
   \<and> length (tl (board_values board_day_before)) = 1
   \<and> mset (tl (leaderboard (snd (updateLeaderboardAndGetStandings ascii_lower now_ex (js ''Cy'') 1
        details_ex board_day_before)))) =
       {#[js ''Cy'', js ''1'', js ''1'', js ''1'', js ''1'', now_ex],
         [js ''Bob'', js ''4'', js ''9'', js ''20'', js ''30'', js ''2025-11-24T17:00:00.000Z'']#}
   \<and> week_of [js ''Cy'', js ''1'', js ''1'', js ''1'', js ''1'', now_ex] = Num 1
   \<and> safe (Num 1)"
proof -
  have h: "\<forall>r \<in> set (tl (board_values board_day_before)). \<not> rep_matches ascii_lower (js ''Cy'') r"
    by (simp add: board_day_before_def reconciler_defs cell_defs)
  have s: "safe (Num 1)" by (simp add: safe_def MAX_SAFE_INTEGER_def)
  from new_rep_entry [where nowIso = now_ex and n = 1 and details = details_ex,
      OF h prod.collapse [symmetric] s] s
  show ?thesis
    by (simp add: board_day_before_def reconciler_defs cell_defs number_defs Let_def)
qed

subsection \<open>The delta of an existing rep\<close>

text \<open>
  Claim C6. For an existing rep whose delta, the reported number minus the baseline, is
  negative, the reconciler drops that delta: the row it writes has Today equal to the
  reported number, and Week, Month and Lifetime each grown by the reported number itself.
  The numbers that the update reads, computes and writes are safe integers, where the sums
  and the decimal text of the model are those of the program.
\<close>

theorem negative_delta_policy:
  assumes "findIndex (rep_matches lc rep) (tl (board_values st)) = Some i"
    and "r = tl (board_values st) ! i"
    and "js_lt0 (js_minus (Num n) (prevToday (saleDate details) r))"
    and "updateLeaderboardAndGetStandings lc nowIso rep n details st = (standings, st')"
    and "r' = updated_rep_row nowIso (saleDate details) n r"
    and "safe_update (saleDate details) n r"
  shows "mset (tl (leaderboard st')) = add_mset r' (mset (tl (board_values st)) - {#r#})
       \<and> r' = [rep_of r, toString (Num n), toString (js_plus (week_of r) (Num n)),
               toString (js_plus (month_of r) (Num n)),
               toString (js_plus (lifetime_of r) (Num n)), nowIso]
       \<and> today_of r' = Num n
       \<and> week_of r' = js_plus (week_of r) (Num n)
       \<and> month_of r' = js_plus (month_of r) (Num n)
       \<and> lifetime_of r' = js_plus (lifetime_of r) (Num n)"
proof -
  have d: "sale_delta (saleDate details) n r = Num n"
    using assms(3) by (simp add: sale_delta_def Let_def)
  have row: "r' = [rep_of r, toString (Num n), toString (js_plus (week_of r) (Num n)),
                   toString (js_plus (month_of r) (Num n)),
                   toString (js_plus (lifetime_of r) (Num n)), nowIso]"
    using assms(5) d by (simp add: updated_rep_row_def Let_def)
  from update_existing_mset [OF assms(1) assms(4)] assms(2) assms(5)
  have "mset (tl (leaderboard st')) = add_mset r' (mset (tl (board_values st)) - {#r#})"
    by simp
  then show ?thesis using row written_row_reads(2-5) [OF row] by simp
qed

theorem negative_delta_policy_witness:
  "findIndex (rep_matches ascii_lower (js ''bob'')) (tl (board_values board_same_day)) = Some 1
   \<and> prevToday (saleDate details_ex) (tl (board_values board_same_day) ! 1) = Num 4
   \<and> js_lt0 (js_minus (Num 2) (Num 4))
   \<and> week_of (tl (board_values board_same_day) ! 1) = Num 9
   \<and> safe_update (saleDate details_ex) 2 (tl (board_values board_same_day) ! 1)
   \<and> mset (tl (leaderboard (snd (updateLeaderboardAndGetStandings ascii_lower now_ex (js ''bob'') 2
        details_ex board_same_day)))) =
       {#[js ''Bob'', js ''2'', js ''11'', js ''22'', js ''32'', now_ex],
         [js ''Ann'', js ''6'', js ''6'', js ''6'', js ''6'', js ''2025-11-25T08:00:00.000Z'']#}"
proof -
  have su: "safe_update (saleDate details_ex) 2 (tl (board_values board_same_day) ! 1)"
    by (simp add: safe_update_def safe_def MAX_SAFE_INTEGER_def board_same_day_def
          reconciler_defs cell_defs number_defs Let_def)
  have i: "findIndex (rep_matches ascii_lower (js ''bob'')) (tl (board_values board_same_day)) = Some 1"
    by (simp add: board_same_day_def reconciler_defs cell_defs)
  have b: "prevToday (saleDate details_ex) (tl (board_values board_same_day) ! 1) = Num 4"
    by (simp add: board_same_day_def reconciler_defs cell_defs number_defs)
  have neg: "js_lt0 (js_minus (Num 2)
               (prevToday (saleDate details_ex) (tl (board_values board_same_day) ! 1)))"
    unfolding b by (simp add: number_defs)
  from negative_delta_policy [where nowIso = now_ex,
      OF i refl neg prod.collapse [symmetric] refl su] su
  show ?thesis
    unfolding i b
    by (simp add: board_same_day_def reconciler_defs cell_defs number_defs Let_def)
qed

text \<open>
  Claim C7. For an existing rep the baseline of the delta is 0 when the row's LastUpdate
  is not empty and its first ten characters, the calendar date, differ from the sale date
  of the event, whatever Today the row holds; it is the stored Today when the dates are
  equal or LastUpdate is empty. The row written back is computed from that baseline. The
  numbers that the update reads, computes and writes are safe integers, where the
  differences, the sums and the decimal text of the model are those of the program.
\<close>

theorem day_rollover_baseline:
  assumes "findIndex (rep_matches lc rep) (tl (board_values st)) = Some i"
    and "r = tl (board_values st) ! i"
    and "base = (if lastUpdate_of r \<noteq> [] \<and> take 10 (lastUpdate_of r) \<noteq> saleDate details
                 then Num 0 else today_of r)"
    and "delta = (if js_lt0 (js_minus (Num n) base) then Num n else js_minus (Num n) base)"
    and "updateLeaderboardAndGetStandings lc nowIso rep n details st = (standings, st')"
    and "safe_update (saleDate details) n r"
  shows "prevToday (saleDate details) r = base
       \<and> mset (tl (leaderboard st')) =
           add_mset [rep_of r, toString (Num n), toString (js_plus (week_of r) delta),
                     toString (js_plus (month_of r) delta),
                     toString (js_plus (lifetime_of r) delta), nowIso]
             (mset (tl (board_values st)) - {#r#})"
proof -
  have b: "prevToday (saleDate details) r = base"
    using assms(3) by (simp add: prevToday_cases)
  then have d: "sale_delta (saleDate details) n r = delta"
    using assms(4) by (simp add: sale_delta_def Let_def)
  from update_existing_mset [OF assms(1) assms(5)] assms(2) d b
  show ?thesis by (simp add: updated_rep_row_def Let_def)
qed

theorem day_rollover_baseline_witness:
  "today_of (tl (board_values board_day_before) ! 0) = Num 4
   \<and> prevToday (saleDate details_ex) (tl (board_values board_day_before) ! 0) = Num 0
   \<and> mset (tl (leaderboard (snd (updateLeaderboardAndGetStandings ascii_lower now_ex (js ''Bob'') 6
        details_ex board_day_before)))) =
       {#[js ''Bob'', js ''6'', js ''15'', js ''26'', js ''36'', now_ex]#}
   \<and> prevToday (saleDate details_ex) (tl (board_values board_same_day) ! 1) = Num 4
   \<and> mset (tl (leaderboard (snd (updateLeaderboardAndGetStandings ascii_lower now_ex (js ''Bob'') 6
        details_ex board_same_day)))) =
       {#[js ''Bob'', js ''6'', js ''11'', js ''22'', js ''32'', now_ex],
         [js ''Ann'', js ''6'', js ''6'', js ''6'', js ''6'', js ''2025-11-25T08:00:00.000Z'']#}
   \<and> safe_update (saleDate details_ex) 6 (tl (board_values board_day_before) ! 0)
   \<and> safe_update (saleDate details_ex) 6 (tl (board_values board_same_day) ! 1)"
proof -
  have su: "safe_update (saleDate details_ex) 6 (tl (board_values board_day_before) ! 0)"
    by (simp add: safe_update_def safe_def MAX_SAFE_INTEGER_def board_day_before_def
          reconciler_defs cell_defs number_defs Let_def)
  have sv: "safe_update (saleDate details_ex) 6 (tl (board_values board_same_day) ! 1)"
    by (simp add: safe_update_def safe_def MAX_SAFE_INTEGER_def board_same_day_def
          reconciler_defs cell_defs number_defs Let_def)
  have i: "findIndex (rep_matches ascii_lower (js ''Bob'')) (tl (board_values board_day_before)) = Some 0"
    by (simp add: board_day_before_def reconciler_defs cell_defs)
  have j: "findIndex (rep_matches ascii_lower (js ''Bob'')) (tl (board_values board_same_day)) = Some 1"
    by (simp add: board_same_day_def reconciler_defs cell_defs)
  from day_rollover_baseline [where n = 6 and nowIso = now_ex,
      OF i refl refl refl prod.collapse [symmetric] su]
  have "prevToday (saleDate details_ex) (tl (board_values board_day_before) ! 0) = Num 0
     \<and> mset (tl (leaderboard (snd (updateLeaderboardAndGetStandings ascii_lower now_ex (js ''Bob'') 6
          details_ex board_day_before)))) =
         {#[js ''Bob'', js ''6'', js ''15'', js ''26'', js ''36'', now_ex]#}"
    by (simp add: board_day_before_def reconciler_defs cell_defs number_defs Let_def)
  moreover
  from day_rollover_baseline [where n = 6 and nowIso = now_ex,
      OF j refl refl refl prod.collapse [symmetric] sv]
  have "prevToday (saleDate details_ex) (tl (board_values board_same_day) ! 1) = Num 4
     \<and> mset (tl (leaderboard (snd (updateLeaderboardAndGetStandings ascii_lower now_ex (js ''Bob'') 6
          details_ex board_same_day)))) =
         {#[js ''Bob'', js ''6'', js ''11'', js ''22'', js ''32'', now_ex],
           [js ''Ann'', js ''6'', js ''6'', js ''6'', js ''6'', js ''2025-11-25T08:00:00.000Z'']#}"
    by (simp add: board_same_day_def reconciler_defs cell_defs number_defs Let_def)
  moreover have "today_of (tl (board_values board_day_before) ! 0) = Num 4"
    by (simp add: board_day_before_def cell_defs number_defs)
  ultimately show ?thesis using su sv by simp
qed

subsection \<open>The other rows\<close>

text \<open>
  Claim C9. A reconciliation changes at most one row. The header stays; when no row
  matches, the persisted rows are the old rows and one new row; when row \<open>i\<close> is the first
  match, they are the old rows with that row replaced. In both cases every row that does
  not match the rep's name is persisted with all its cells as they were, as often as it
  occurred: only the order of the rows may differ.
\<close>

theorem reconcile_frame:
  assumes "updateLeaderboardAndGetStandings lc nowIso rep n details st = (standings, st')"
  shows "hd (leaderboard st') = hd (board_values st)
       \<and> (case findIndex (rep_matches lc rep) (tl (board_values st)) of
            None \<Rightarrow>
              mset (tl (leaderboard st')) =
                add_mset (new_rep_row nowIso rep n) (mset (tl (board_values st)))
          | Some i \<Rightarrow>
              i < length (tl (board_values st)) \<and> rep_matches lc rep (tl (board_values st) ! i)
              \<and> mset (tl (leaderboard st')) =
                  add_mset (updated_rep_row nowIso (saleDate details) n (tl (board_values st) ! i))
                    (mset (tl (board_values st)) - {#tl (board_values st) ! i#}))
       \<and> filter_mset (\<lambda>r. \<not> rep_matches lc rep r) (mset (tl (board_values st)))
            \<subseteq># mset (tl (leaderboard st'))"
proof (cases "findIndex (rep_matches lc rep) (tl (board_values st))")
  case None
  from update_rows_mset [OF assms] reconciled_new [OF None]
  have m: "mset (tl (leaderboard st')) =
             add_mset (new_rep_row nowIso rep n) (mset (tl (board_values st)))" by simp
  have "filter_mset (\<lambda>r. \<not> rep_matches lc rep r) (mset (tl (board_values st)))
          \<subseteq># mset (tl (board_values st))" by (rule multiset_filter_subset)
  also have "\<dots> \<subseteq># mset (tl (leaderboard st'))" using m by simp
  finally show ?thesis using None m update_leaderboard [OF assms] by simp
next
  case (Some i)
  from findIndex_Some [OF Some]
  have i: "i < length (tl (board_values st))" "rep_matches lc rep (tl (board_values st) ! i)"
    by blast+
  from update_rows_mset [OF assms] reconciled_existing [OF Some]
  have m: "mset (tl (leaderboard st')) =
             add_mset (updated_rep_row nowIso (saleDate details) n (tl (board_values st) ! i))
               (mset (tl (board_values st)) - {#tl (board_values st) ! i#})" by simp
  have "filter_mset (\<lambda>r. \<not> rep_matches lc rep r) (mset (tl (board_values st)))
          \<subseteq># mset (tl (board_values st)) - {#tl (board_values st) ! i#}"
    using i(2) by (rule unmatched_kept)
  also have "\<dots> \<subseteq># mset (tl (leaderboard st'))" using m by simp
  finally show ?thesis using Some i m update_leaderboard [OF assms] by simp
qed

theorem reconcile_frame_witness:
  "hd (leaderboard (snd (updateLeaderboardAndGetStandings ascii_lower now_ex (js ''bob'') 2
      details_ex board_same_day))) = HEADER
   \<and> findIndex (rep_matches ascii_lower (js ''bob'')) (tl (board_values board_same_day)) = Some 1
   \<and> mset (tl (leaderboard (snd (updateLeaderboardAndGetStandings ascii_lower now_ex (js ''bob'') 2
        details_ex board_same_day)))) =
       {#[js ''Bob'', js ''2'', js ''11'', js ''22'', js ''32'', now_ex],
         [js ''Ann'', js ''6'', js ''6'', js ''6'', js ''6'', js ''2025-11-25T08:00:00.000Z'']#}"
proof -
  have i: "findIndex (rep_matches ascii_lower (js ''bob'')) (tl (board_values board_same_day)) = Some 1"
    by (simp add: board_same_day_def reconciler_defs cell_defs)
  from reconcile_frame [where lc = ascii_lower and nowIso = now_ex and rep = "js ''bob''"
      and n = 2 and details = details_ex and st = board_same_day, OF prod.collapse [symmetric]]
  show ?thesis
    unfolding i by (simp add: board_same_day_def reconciler_defs cell_defs number_defs Let_def)
qed

subsection \<open>Reports with a minus sign\<close>

lemma parse_minus:
  "parseSalesMessage now_ex msg_minus (js ''Bob'') =
     Some \<lparr> customerName = js ''Jane Doe'', installDate = js ''11/25'', provider = js ''Kinetic'',
            speed = js ''1G'', saleDate = js ''2025-11-25'', timestamp = now_ex,
            repName = js ''Bob'', todayReported = - 3 \<rparr>"
proof -
  have ne: "msg_minus \<noteq> []" by (simp add: msg_minus_def)
  show ?thesis
    unfolding parseSalesMessage_def tokens_minus
    using ne
    by (simp add: pattern_defs parseInt_def digits_value_def is_space_def slice_def
          js_def now_ex_def Let_def)
qed

text \<open>
  Claim C1. The claim says that Week, Month and Lifetime never decrease, also for a count
  read from a token with a minus sign. The pattern of the count accepts a sign, so the
  message \<open>-3 Jane Doe 11/25 Kinetic 1G\<close> is parsed with \<open>todayReported = -3\<close>. For Bob,
  whose row holds Today 0 and Week, Month and Lifetime 5 from the same day, the delta is
  \<open>-3 - 0 < 0\<close>; the guard against a negative delta replaces it by the reported number,
  which is \<open>-3\<close> again, and the three totals drop from 5 to 2.
\<close>

theorem minus_sign_lowers_totals:
  "map_option todayReported (parseSalesMessage now_ex msg_minus (js ''Bob'')) = Some (- 3)
   \<and> tl (leaderboard board_bob) =
       [[js ''Bob'', js ''0'', js ''5'', js ''5'', js ''5'', js ''2025-11-25T09:00:00.000Z'']]
   \<and> tl (leaderboard (snd (webhook ascii_lower now_ex now_ex msg_minus (js ''Bob'') (js ''user'')
        board_bob))) =
       [[js ''Bob'', js ''-3'', js ''2'', js ''2'', js ''2'', now_ex]]"
proof -
  have u: "js ''user'' \<noteq> js ''bot''" by (simp add: js_def)
  show ?thesis
    unfolding webhook_def parse_minus using u
    by (simp add: board_bob_def updateLeaderboardAndGetStandings_def reconciled_rows_def
          rep_matches_def ascii_lower_def updated_rep_row_def sale_delta_def prevToday_def
          today_desc_def cell_defs number_defs Let_def)
qed

text \<open>
  For a report that is not negative the guard does what its comment says: with numeric
  cells and safe integers, none of the three totals of the rep's row decreases.
\<close>

lemma sale_delta_nonnegative:
  assumes "0 \<le> n" and "prevToday cd r = Num b"
  shows "\<exists>d. sale_delta cd n r = Num d \<and> 0 \<le> d"
  using assms by (auto simp: sale_delta_def js_minus_def js_lt0_def Let_def)

lemma nonnegative_report_never_lowers:
  assumes "0 \<le> n" and "prevToday cd r = Num b"
    and "week_of r = Num w" and "month_of r = Num m" and "lifetime_of r = Num l"
    and "safe_update cd n r"
  shows "\<exists>w' m' l'. week_of (updated_rep_row nowIso cd n r) = Num w' \<and> w \<le> w'
           \<and> month_of (updated_rep_row nowIso cd n r) = Num m' \<and> m \<le> m'
           \<and> lifetime_of (updated_rep_row nowIso cd n r) = Num l' \<and> l \<le> l'"
proof -
  from sale_delta_nonnegative [OF assms(1,2)] obtain d
    where d: "sale_delta cd n r = Num d" "0 \<le> d" by blast
  have row: "updated_rep_row nowIso cd n r =
               [rep_of r, toString (Num n), toString (Num (w + d)), toString (Num (m + d)),
                toString (Num (l + d)), nowIso]"
    using d(1) assms(3-5) by (simp add: updated_rep_row_def js_plus_def Let_def)
  from written_row_reads(3-5) [OF row] d(2) show ?thesis by simp
qed

section \<open>The daily reset\<close>

lemma reset_leaderboard:
  "leaderboard (resetTodayAndMaybeWeek getDay nowIso d st) =
     hd (board_values st) # map (reset_row (getDay d = Num 1) nowIso) (tl (board_values st))"
  by (simp add: resetTodayAndMaybeWeek_def Let_def)

lemma reset_nth:
  assumes "i < length (tl (board_values st))"
  shows "tl (leaderboard (resetTodayAndMaybeWeek getDay nowIso d st)) ! i =
           reset_row (getDay d = Num 1) nowIso (tl (board_values st) ! i)"
  using assms by (simp add: reset_leaderboard)

lemma rep_of_empty_iff: "rep_of r = [] \<longleftrightarrow> at r 0 = None \<or> at r 0 = Some []"
  by (auto simp: rep_of_def orElse_def split: option.splits)

lemmas calendar_defs = weekday_of_date_def js_getDay_def iso_date_def day_number_def
  days_before_year_def days_before_month_def month_lengths_def is_leap_def digits_value_def
  is_digit_def js_def

lemma getDay_utc_or_east:
  assumes "0 \<le> tz" and "tz < 1440" and "weekday_of_date s = Some w"
  shows "js_getDay tz legacy s = Num w"
proof -
  from assms(3) obtain ymd
    where i: "iso_date s = Some ymd" and w: "w = (day_number ymd + 4) mod 7"
    by (auto simp: weekday_of_date_def)
  have "(day_number ymd * 1440 + tz) div 1440 = day_number ymd"
    using assms(1,2) by simp
  with i w show ?thesis by (simp add: js_getDay_def)
qed

text \<open>
  Claim C4. The claim says that the reset zeroes Week exactly when the given date falls on
  the week-start weekday, Monday, as the comment of the function does ("if it's Monday,
  also reset Week"). The program reads the date as midnight UTC and takes the weekday of
  that instant in the time zone of the process. In a process six hours behind UTC the
  Monday 2025-11-24 gives weekday 0, Sunday, and the reset keeps every Week; the Tuesday
  2025-11-25 gives weekday 1, and the reset zeroes Week a day late. Today is zeroed and
  Month and Lifetime are kept on both dates.
\<close>

theorem week_reset_west_of_utc:
  "weekday_of_date (js ''2025-11-24'') = Some 1
   \<and> js_getDay (- 360) (\<lambda>s. NaN) (js ''2025-11-24'') = Num 0
   \<and> tl (leaderboard (resetTodayAndMaybeWeek (js_getDay (- 360) (\<lambda>s. NaN)) now_ex
        (js ''2025-11-24'') board_same_day)) =
       [[js ''Ann'', js ''0'', js ''6'', js ''6'', js ''6'', now_ex],
        [js ''Bob'', js ''0'', js ''9'', js ''20'', js ''30'', now_ex]]
   \<and> weekday_of_date (js ''2025-11-25'') = Some 2
   \<and> js_getDay (- 360) (\<lambda>s. NaN) (js ''2025-11-25'') = Num 1
   \<and> tl (leaderboard (resetTodayAndMaybeWeek (js_getDay (- 360) (\<lambda>s. NaN)) now_ex
        (js ''2025-11-25'') board_same_day)) =
       [[js ''Ann'', js ''0'', js ''0'', js ''6'', js ''6'', now_ex],
        [js ''Bob'', js ''0'', js ''0'', js ''20'', js ''30'', now_ex]]"
proof -
  have m: "weekday_of_date (js ''2025-11-24'') = Some 1"
    and t: "weekday_of_date (js ''2025-11-25'') = Some 2"
    by (simp_all add: calendar_defs Let_def)
  have gm: "js_getDay (- 360) (\<lambda>s. NaN) (js ''2025-11-24'') = Num 0"
    and gt: "js_getDay (- 360) (\<lambda>s. NaN) (js ''2025-11-25'') = Num 1"
    by (simp_all add: calendar_defs Let_def)
  have rm: "tl (leaderboard (resetTodayAndMaybeWeek (js_getDay (- 360) (\<lambda>s. NaN)) now_ex
              (js ''2025-11-24'') board_same_day)) =
            [[js ''Ann'', js ''0'', js ''6'', js ''6'', js ''6'', now_ex],
             [js ''Bob'', js ''0'', js ''9'', js ''20'', js ''30'', now_ex]]"
    unfolding resetTodayAndMaybeWeek_def gm
    by (simp add: board_same_day_def reset_row_def cell_defs number_defs Let_def)
  have rt: "tl (leaderboard (resetTodayAndMaybeWeek (js_getDay (- 360) (\<lambda>s. NaN)) now_ex
              (js ''2025-11-25'') board_same_day)) =
            [[js ''Ann'', js ''0'', js ''0'', js ''6'', js ''6'', now_ex],
             [js ''Bob'', js ''0'', js ''0'', js ''20'', js ''30'', now_ex]]"
    unfolding resetTodayAndMaybeWeek_def gt
    by (simp add: board_same_day_def reset_row_def cell_defs number_defs Let_def)
  from m t gm gt rm rt show ?thesis by simp
qed

text \<open>
  In a process on UTC or east of it, by less than a day, the weekday that the program
  computes is the weekday of the date. There, for every row with a rep whose Week, Month
  and Lifetime are safe integers, the reset does what the claim says: Today becomes 0,
  Week becomes 0 exactly on a Monday and is kept otherwise, Month and Lifetime are kept.
\<close>

lemma reset_named_rows:
  assumes "i < length (tl (board_values st))"
    and "r = tl (board_values st) ! i"
    and "rep_of r \<noteq> []"
    and "safe (week_of r)" and "safe (month_of r)" and "safe (lifetime_of r)"
    and "0 \<le> tz" and "tz < 1440" and "weekday_of_date d = Some w"
    and "r' = tl (leaderboard (resetTodayAndMaybeWeek (js_getDay tz legacy) nowIso d st)) ! i"
  shows "today_of r' = Num 0
       \<and> at r' 1 = Some (js ''0'')
       \<and> week_of r' = (if w = 1 then Num 0 else week_of r)
       \<and> month_of r' = month_of r
       \<and> lifetime_of r' = lifetime_of r
       \<and> rep_of r' = rep_of r"
proof -
  have g: "js_getDay tz legacy d = Num w"
    using assms(7-9) by (rule getDay_utc_or_east)
  have row: "r' = [rep_of r, toString (Num 0), toString (if w = 1 then Num 0 else week_of r),
                   toString (month_of r), toString (lifetime_of r), nowIso]"
    using reset_nth [OF assms(1), of "js_getDay tz legacy" nowIso d] assms(2,3,10) g
    by (simp add: reset_row_def)
  have "at r' 1 = Some (js ''0'')"
    using row by (simp add: at_def toString_zero)
  with written_row_reads(1-5) [OF row] show ?thesis by simp
qed

text \<open>
  Claim C10. A row whose Rep cell is missing or empty comes out of the reset as it went in,
  cell for cell, for every date, weekday and clock: its Today and Week are not zeroed and
  its LastUpdate is not touched.
\<close>

theorem reset_leaves_unnamed_rows:
  assumes "i < length (tl (board_values st))"
    and "at (tl (board_values st) ! i) 0 = None \<or> at (tl (board_values st) ! i) 0 = Some []"
  shows "tl (leaderboard (resetTodayAndMaybeWeek getDay nowIso d st)) ! i =
           tl (board_values st) ! i"
  using reset_nth [OF assms(1), of getDay nowIso d] assms(2)
  by (simp add: reset_row_def rep_of_empty_iff)

theorem reset_leaves_unnamed_rows_witness:
  "at (tl (board_values board_blank_rep) ! 1) 0 = Some []
   \<and> tl (leaderboard (resetTodayAndMaybeWeek (\<lambda>s. Num 1) now_ex (js ''2025-11-24'')
        board_blank_rep)) ! 1 =
       [[], js ''5'', js ''7'', js ''9'', js ''9'', js ''2025-11-23T09:00:00.000Z'']"
proof -
  have i: "1 < length (tl (board_values board_blank_rep))"
    by (simp add: board_blank_rep_def cell_defs)
  have e: "at (tl (board_values board_blank_rep) ! 1) 0 = Some []"
    by (simp add: board_blank_rep_def cell_defs)
  from reset_leaves_unnamed_rows [where getDay = "\<lambda>s. Num 1" and nowIso = now_ex
      and d = "js ''2025-11-24''", OF i disjI2 [OF e]] e
  show ?thesis by (simp add: board_blank_rep_def cell_defs)
qed

section \<open>The daily recap\<close>

subsection \<open>The tally of the recap\<close>

lemma first_seen_snoc:
  "first_seen (xs @ [k]) = (if k \<in> set xs then first_seen xs else first_seen xs @ [k])"
  by (simp add: first_seen_def)

lemma set_first_seen: "set (first_seen xs) = set xs"
  by (simp add: first_seen_def)

lemma distinct_first_seen: "distinct (first_seen xs)"
  by (simp add: first_seen_def)

lemma map_get_or0_tabulated:
  "map_get_or0 (map (\<lambda>x. (x, f x)) ks) k = (if k \<in> set ks then f k else 0)"
  by (induction ks) (auto simp: map_get_or0_def)

lemma map_set_tabulated:
  "map_set k v (map (\<lambda>x. (x, f x)) ks) =
     (if k \<in> set ks then map (\<lambda>x. (x, if x = k then v else f x)) ks
      else map (\<lambda>x. (x, f x)) ks @ [(k, v)])"
  if "distinct ks"
  using that by (induction ks) auto

lemma tally_step:
  "tally d acc r =
     (if counted d r
      then (map_set (log_rep r) (map_get_or0 (fst acc) (log_rep r) + 1) (fst acc), snd acc + 1)
      else acc)"
  by (auto simp: tally_def counted_def)

lemma bump_tabulated:
  "map_set k (map_get_or0 (map (\<lambda>x. (x, count_list reps x)) (first_seen reps)) k + 1)
       (map (\<lambda>x. (x, count_list reps x)) (first_seen reps)) =
     map (\<lambda>x. (x, count_list (reps @ [k]) x)) (first_seen (reps @ [k]))"
proof (cases "k \<in> set reps")
  case True
  then show ?thesis
    by (simp add: map_set_tabulated [OF distinct_first_seen] map_get_or0_tabulated
          set_first_seen first_seen_snoc)
next
  case False
  then have z: "count_list reps k = 0" by (simp add: count_list_0_iff)
  have same: "map (\<lambda>x. (x, count_list (reps @ [k]) x)) (first_seen reps) =
              map (\<lambda>x. (x, count_list reps x)) (first_seen reps)"
  proof (rule map_cong [OF refl])
    fix x assume "x \<in> set (first_seen reps)"
    then have "x \<noteq> k" using False by (auto simp: set_first_seen)
    then show "(x, count_list (reps @ [k]) x) = (x, count_list reps x)" by simp
  qed
  have "map_set k (map_get_or0 (map (\<lambda>x. (x, count_list reps x)) (first_seen reps)) k + 1)
          (map (\<lambda>x. (x, count_list reps x)) (first_seen reps)) =
        map (\<lambda>x. (x, count_list reps x)) (first_seen reps) @ [(k, 1)]"
    using False
    by (simp add: map_set_tabulated [OF distinct_first_seen] map_get_or0_tabulated
          set_first_seen)
  also have "\<dots> = map (\<lambda>x. (x, count_list (reps @ [k]) x)) (first_seen reps @ [k])"
    using z same by simp
  also have "\<dots> = map (\<lambda>x. (x, count_list (reps @ [k]) x)) (first_seen (reps @ [k]))"
    using False by (simp add: first_seen_snoc)
  finally show ?thesis .
qed

lemma tally_fold:
  "foldl (tally d) ([], 0) rows =
     (map (\<lambda>k. (k, count_list (map log_rep (filter (counted d) rows)) k))
        (first_seen (map log_rep (filter (counted d) rows))),
      length (filter (counted d) rows))"
proof (induction rows rule: rev_induct)
  case Nil
  then show ?case by (simp add: first_seen_def)
next
  case (snoc r rows)
  show ?case
  proof (cases "counted d r")
    case True
    then show ?thesis
      using snoc bump_tabulated [of "log_rep r" "map log_rep (filter (counted d) rows)"]
      by (simp add: tally_step)
  next
    case False
    then show ?thesis using snoc by (simp add: tally_step)
  qed
qed

subsection \<open>The sort of the recap\<close>

lemma count_desc_positive: "js_gt0 (count_desc a b) \<longleftrightarrow> snd a < snd b"
  by (simp add: count_desc_def js_gt0_def)

lemma insert_by_count_sorted:
  "sorted_wrt (\<lambda>a b. snd b \<le> snd a) xs \<Longrightarrow>
   sorted_wrt (\<lambda>a b. snd b \<le> snd a) (insert_by count_desc x xs)"
proof (induction xs)
  case Nil
  then show ?case by simp
next
  case (Cons y ys)
  have s: "set (insert_by count_desc x ys) = insert x (set ys)"
    using mset_insert_by [of count_desc x ys] by (metis set_mset_add_mset_insert set_mset_mset)
  show ?case
  proof (cases "snd x < snd y")
    case True
    with Cons s show ?thesis by (auto simp: count_desc_positive)
  next
    case False
    with Cons.prems show ?thesis by (auto simp: count_desc_positive)
  qed
qed

lemma sort_by_count_sorted: "sorted_wrt (\<lambda>a b. snd b \<le> snd a) (sort_by count_desc xs)"
  by (induction xs) (simp_all add: insert_by_count_sorted)

lemma insert_by_count_filter:
  "filter (\<lambda>e. snd e = c) (insert_by count_desc x xs) = filter (\<lambda>e. snd e = c) (x # xs)"
  by (induction xs) (auto simp: count_desc_positive)

lemma sort_by_count_stable:
  "filter (\<lambda>e. snd e = c) (sort_by count_desc xs) = filter (\<lambda>e. snd e = c) xs"
  by (induction xs) (simp_all add: insert_by_count_filter)

lemma sum_sort_by:
  fixes xs :: "('a \<times> nat) list"
  shows "sum_list (map snd (sort_by cmp xs)) = sum_list (map snd xs)"
proof -
  have "sum_mset (mset (map snd (sort_by cmp xs))) = sum_mset (mset (map snd xs))"
    by (simp add: mset_sort_by)
  then show ?thesis by (simp only: sum_mset_sum_list)
qed

lemma sum_tabulated_counts:
  "sum_list (map snd (map (\<lambda>k. (k, count_list reps k)) (first_seen reps))) = length reps"
proof -
  have "sum_list (map (count_list reps) (first_seen reps)) = sum (count_list reps) (set reps)"
    using sum_list_distinct_conv_sum_set [OF distinct_first_seen, of "count_list reps" reps]
    by (simp add: set_first_seen)
  also have "\<dots> = length reps" by (rule sum_count_set) simp_all
  finally show ?thesis by (simp add: comp_def)
qed

lemma parse_jane:
  "parseSalesMessage now_ex msg_jane sender =
     Some \<lparr> customerName = js ''Jane Doe'', installDate = js ''11/25'', provider = js ''Kinetic'',
            speed = js ''1G'', saleDate = js ''2025-11-25'', timestamp = now_ex,
            repName = sender, todayReported = 1 \<rparr>"
proof -
  have ne: "msg_jane \<noteq> []" by (simp add: msg_jane_def)
  show ?thesis
    unfolding parseSalesMessage_def tokens_jane
    using ne
    by (simp add: pattern_defs parseInt_def digits_value_def is_space_def slice_def
          js_def now_ex_def Let_def)
qed

lemma first_sale_store:
  "snd (webhook ascii_lower now_ex now_ex msg_jane (js ''Alice'') (js ''user'') empty_store) =
     \<lparr> leaderboard = [HEADER, [js ''Alice'', js ''1'', js ''1'', js ''1'', js ''1'', now_ex]],
       salesLog = [log_row_ex (js ''Alice'') (js ''2025-11-25'')] \<rparr>"
proof -
  have u: "js ''user'' \<noteq> js ''bot''" by (simp add: js_def)
  show ?thesis
    unfolding webhook_def parse_jane using u
    by (simp add: empty_store_def log_row_ex_def updateLeaderboardAndGetStandings_def
          reconciled_rows_def rep_matches_def new_rep_row_def board_values_def number_defs
          Let_def)
       (simp add: js_def)
qed

lemma second_sale_log:
  "salesLog (snd (webhook ascii_lower now_ex now_ex msg_jane (js ''Bob'') (js ''user'')
      (snd (webhook ascii_lower now_ex now_ex msg_jane (js ''Alice'') (js ''user'')
         empty_store)))) =
     [log_row_ex (js ''Alice'') (js ''2025-11-25''), log_row_ex (js ''Bob'') (js ''2025-11-25'')]"
proof -
  have u: "js ''user'' \<noteq> js ''bot''" by (simp add: js_def)
  show ?thesis
    unfolding first_sale_store unfolding webhook_def parse_jane using u
    by (simp add: log_row_ex_def updateLeaderboardAndGetStandings_def number_defs Let_def)
       (simp add: js_def)
qed

text \<open>
  Claim C5. The claim says that the total of the recap is the number of log records of the
  date. The program takes the first row of the log sheet for a header and never counts
  it, but nothing writes a header to that sheet, whereas a blank leaderboard sheet gets
  its header from the reconciler. From blank sheets the first sale is appended as the
  first row: the recap of its date is empty with total 0, and after a second sale of the
  same day the total is 1 for two records.
\<close>

theorem first_sale_not_counted:
  "salesLog (snd (webhook ascii_lower now_ex now_ex msg_jane (js ''Alice'') (js ''user'')
      empty_store)) =
     [log_row_ex (js ''Alice'') (js ''2025-11-25'')]
   \<and> log_saleDate (log_row_ex (js ''Alice'') (js ''2025-11-25'')) = js ''2025-11-25''
   \<and> getDailySummary (js ''2025-11-25'')
        (snd (webhook ascii_lower now_ex now_ex msg_jane (js ''Alice'') (js ''user'')
           empty_store)) = ([], 0)
   \<and> salesLog (snd (webhook ascii_lower now_ex now_ex msg_jane (js ''Bob'') (js ''user'')
        (snd (webhook ascii_lower now_ex now_ex msg_jane (js ''Alice'') (js ''user'')
           empty_store)))) =
       [log_row_ex (js ''Alice'') (js ''2025-11-25''), log_row_ex (js ''Bob'') (js ''2025-11-25'')]
   \<and> getDailySummary (js ''2025-11-25'')
        (snd (webhook ascii_lower now_ex now_ex msg_jane (js ''Bob'') (js ''user'')
           (snd (webhook ascii_lower now_ex now_ex msg_jane (js ''Alice'') (js ''user'')
              empty_store)))) = ([(js ''Bob'', 1)], 1)"
proof -
  have d: "log_saleDate (log_row_ex (js ''Alice'') (js ''2025-11-25'')) = js ''2025-11-25''"
    by (simp add: log_row_ex_def log_saleDate_def at_def orElse_def js_def)
  have one: "getDailySummary (js ''2025-11-25'')
        (snd (webhook ascii_lower now_ex now_ex msg_jane (js ''Alice'') (js ''user'')
           empty_store)) = ([], 0)"
    unfolding first_sale_store by (simp add: getDailySummary_def)
  have two: "getDailySummary (js ''2025-11-25'')
        (snd (webhook ascii_lower now_ex now_ex msg_jane (js ''Bob'') (js ''user'')
           (snd (webhook ascii_lower now_ex now_ex msg_jane (js ''Alice'') (js ''user'')
              empty_store)))) = ([(js ''Bob'', 1)], 1)"
    unfolding getDailySummary_def second_sale_log
    by (simp add: tally_def log_row_ex_def log_rep_def log_saleDate_def at_def orElse_def
          map_get_or0_def js_def)
  from first_sale_store second_sale_log d one two show ?thesis by simp
qed

text \<open>
  Below a header row the recap does what the claim says, for the rows that have a Rep and
  a SaleDate cell that are not empty: the total is the number of those rows whose SaleDate
  is the date, and the sum of the counts per rep; every rep has the number of its rows;
  the reps are sorted by count, largest first, and reps of equal count stand in the order
  in which the log first names them; when no row is counted the recap is empty with total 0.
\<close>

lemma daily_summary:
  assumes "getDailySummary d st = (perRep, tot)"
    and "reps = map log_rep (filter (counted d) (tl (salesLog st)))"
    and "counts = map (\<lambda>k. (k, count_list reps k)) (first_seen reps)"
  shows "tot = length (filter (counted d) (tl (salesLog st)))
       \<and> sum_list (map snd perRep) = tot
       \<and> perRep = sort_by count_desc counts
       \<and> sorted_wrt (\<lambda>a b. snd b \<le> snd a) perRep
       \<and> (\<forall>c. filter (\<lambda>e. snd e = c) perRep = filter (\<lambda>e. snd e = c) counts)
       \<and> (filter (counted d) (tl (salesLog st)) = [] \<longrightarrow> perRep = [] \<and> tot = 0)"
proof -
  have fold: "foldl (tally d) ([], 0) (tl (salesLog st)) =
                (counts, length (filter (counted d) (tl (salesLog st))))"
    using assms(2,3) by (simp add: tally_fold)
  have res: "perRep = sort_by count_desc counts
             \<and> tot = length (filter (counted d) (tl (salesLog st)))"
  proof (cases "length (salesLog st) \<le> 1")
    case True
    then have "tl (salesLog st) = []" by (cases "salesLog st") auto
    then have "counts = []" using assms(2,3) by (simp add: first_seen_def)
    with True assms(1) \<open>tl (salesLog st) = []\<close> show ?thesis
      by (simp add: getDailySummary_def)
  next
    case False
    with assms(1) fold show ?thesis by (auto simp: getDailySummary_def Let_def)
  qed
  have sum: "sum_list (map snd perRep) = tot"
    using res assms(2,3) sum_tabulated_counts [of reps] by (simp add: sum_sort_by)
  have none: "filter (counted d) (tl (salesLog st)) = [] \<longrightarrow> perRep = [] \<and> tot = 0"
    using res assms(2,3) by (auto simp: first_seen_def)
  show ?thesis
    using res sum none sort_by_count_sorted [of counts] sort_by_count_stable [of _ counts]
    by simp
qed

lemma daily_summary_example:
  "length (filter (counted (js ''2025-11-25'')) (tl (salesLog log_ex))) = 4
   \<and> getDailySummary (js ''2025-11-25'') log_ex =
       ([(js ''Alice'', 2), (js ''Bob'', 1), (js ''Dee'', 1)], 4)
   \<and> filter (counted (js ''2025-12-01'')) (tl (salesLog log_ex)) = []
   \<and> getDailySummary (js ''2025-12-01'') log_ex = ([], 0)"
proof -
  have r: "map log_rep (filter (counted (js ''2025-11-25'')) (tl (salesLog log_ex))) =
             [js ''Bob'', js ''Alice'', js ''Alice'', js ''Dee'']"
    by (simp add: log_ex_def log_row_ex_def counted_def log_rep_def log_saleDate_def at_def
          orElse_def js_def)
  have n: "filter (counted (js ''2025-12-01'')) (tl (salesLog log_ex)) = []"
    by (simp add: log_ex_def log_row_ex_def counted_def log_rep_def log_saleDate_def at_def
          orElse_def js_def)
  have c: "map (\<lambda>k. (k, count_list [js ''Bob'', js ''Alice'', js ''Alice'', js ''Dee''] k))
             (first_seen [js ''Bob'', js ''Alice'', js ''Alice'', js ''Dee'']) =
           [(js ''Bob'', 1), (js ''Alice'', 2), (js ''Dee'', 1)]"
    by (simp add: first_seen_def js_def)
  have s: "sort_by count_desc [(js ''Bob'', 1), (js ''Alice'', 2), (js ''Dee'', 1)] =
             [(js ''Alice'', 2), (js ''Bob'', 1), (js ''Dee'', 1)]"
    by (simp add: count_desc_def js_gt0_def)
  have l: "length (filter (counted (js ''2025-11-25'')) (tl (salesLog log_ex))) = 4"
    using arg_cong [OF r, of length] by simp
  note ds = daily_summary [OF prod.collapse [symmetric] refl refl, of "js ''2025-11-25''" log_ex]
  have "snd (getDailySummary (js ''2025-11-25'') log_ex) =
          length (filter (counted (js ''2025-11-25'')) (tl (salesLog log_ex)))"
    using ds by (rule conjunct1)
  moreover have "fst (getDailySummary (js ''2025-11-25'') log_ex) =
          sort_by count_desc
            (map (\<lambda>k. (k, count_list
                 (map log_rep (filter (counted (js ''2025-11-25'')) (tl (salesLog log_ex)))) k))
               (first_seen
                 (map log_rep (filter (counted (js ''2025-11-25'')) (tl (salesLog log_ex))))))"
    using ds by (rule conjunct1 [OF conjunct2 [OF conjunct2]])
  ultimately have a: "snd (getDailySummary (js ''2025-11-25'') log_ex) = 4
         \<and> fst (getDailySummary (js ''2025-11-25'') log_ex) =
             [(js ''Alice'', 2), (js ''Bob'', 1), (js ''Dee'', 1)]"
    unfolding r c s l by simp
  from daily_summary [OF prod.collapse [symmetric] refl refl, of "js ''2025-12-01''" log_ex] n
  have b: "fst (getDailySummary (js ''2025-12-01'') log_ex) = []
         \<and> snd (getDailySummary (js ''2025-12-01'') log_ex) = 0"
    by (simp add: first_seen_def)
  from a b l n show ?thesis by (simp add: prod_eq_iff)
qed

end
